theory Spec2Isabelle
  imports Complex_Main "HOL-Library.Sublist" "HOL-Library.Multiset"
begin

section \<open>JavaScript values and string built-ins\<close>

text \<open>
  A JavaScript string is modelled by the list of the bytes of its UTF-8 encoding. The
  separators and markers the crawler looks for (\<open>_\<close>, \<open>@\<close>, the error signatures) are
  ASCII, so splitting and searching on bytes agrees with splitting and searching on code
  units. \<open>undefined\<close> and a missing property are both \<open>None\<close> of an option type.
\<close>

datatype js_value = JUndefined | JNull | JBool bool | JNumber int | JString string

text \<open>Truthiness of an optional string: \<open>undefined\<close> and the empty string are falsy.\<close>

fun truthy :: "string option \<Rightarrow> bool" where
  "truthy None = False"
| "truthy (Some s) = (s \<noteq> [])"

text \<open>\<open>x || y\<close> on optional strings: the left operand when it is truthy, else the right one.\<close>

definition js_or :: "string option \<Rightarrow> string option \<Rightarrow> string option" where
  "js_or x y = (if truthy x then x else y)"

text \<open>\<open>haystack.includes(needle)\<close>: the needle occurs as a contiguous run.\<close>

definition str_includes :: "string \<Rightarrow> string \<Rightarrow> bool" where
  "str_includes haystack needle = sublist needle haystack"

text \<open>
  \<open>s.split(sep)\<close> for a one-character separator: the maximal separator-free pieces, in
  order; the empty string gives one empty piece. The pieces of the rest are never an empty
  list (\<open>str_split_nonempty\<close> below), so the last case is never taken.
\<close>

fun str_split :: "char \<Rightarrow> string \<Rightarrow> string list" where
  "str_split sep [] = [[]]"
| "str_split sep (c # cs) =
     (if c = sep then [] # str_split sep cs
      else (case str_split sep cs of
              p # ps \<Rightarrow> (c # p) # ps
            | [] \<Rightarrow> [[c]]))"

text \<open>\<open>parts.join(sep)\<close>, used to say what the pieces of a split are.\<close>

fun str_join :: "char \<Rightarrow> string list \<Rightarrow> string" where
  "str_join sep [] = []"
| "str_join sep [p] = p"
| "str_join sep (p # q # ps) = p @ sep # str_join sep (q # ps)"

text \<open>
  The regular expression \<open>/@.*/\<close>: in JavaScript the dot matches every character but a
  line terminator (LF, CR, U+2028, U+2029; the last two are three bytes each in UTF-8).
  \<open>lineTerminator s\<close> says that \<open>s\<close> begins with one.
\<close>

definition lineTerminator :: "string \<Rightarrow> bool" where
  "lineTerminator s =
     (prefix [CHR 0x0A] s \<or> prefix [CHR 0x0D] s \<or>
      prefix [CHR 0xE2, CHR 0x80, CHR 0xA8] s \<or> prefix [CHR 0xE2, CHR 0x80, CHR 0xA9] s)"

text \<open>What is left of the text after the greedy \<open>.*\<close> has consumed its run.\<close>

fun skipDots :: "string \<Rightarrow> string" where
  "skipDots [] = []"
| "skipDots (c # cs) = (if lineTerminator (c # cs) then c # cs else skipDots cs)"

text \<open>
  \<open>s.replace(/@.*/, '')\<close>: the first \<open>@\<close> and the run of non-terminator characters after it
  are removed (the expression is not global: only the first match is replaced).
\<close>

fun replaceAtSuffix :: "string \<Rightarrow> string" where
  "replaceAtSuffix [] = []"
| "replaceAtSuffix (c # cs) = (if c = CHR ''@'' then skipDots cs else c # replaceAtSuffix cs)"

section \<open>messageUtils.js: the message-identifier parser\<close>

text \<open>
  The object \<open>parseMessageId\<close> returns: \<open>{valid: false, reason, raw}\<close> or
  \<open>{valid: true, chatId, msgHashId, senderId}\<close>.
\<close>

datatype parsed_id =
    Invalid (reason: string) (raw: js_value)
  | Valid (chatId: string) (msgHashId: string) (senderId: string)

fun valid :: "parsed_id \<Rightarrow> bool" where
  "valid (Invalid r v) = False"
| "valid (Valid c h s) = True"

definition parseMessageId :: "js_value \<Rightarrow> parsed_id" where
  "parseMessageId messageId =
     (case messageId of
        JString s \<Rightarrow>
          (let parts = str_split CHR ''_'' s in
           if length parts \<noteq> 4 then Invalid ''Invalid message ID format'' messageId
           else Valid (parts ! 1) (parts ! 2) (replaceAtSuffix (parts ! 3)))
      | _ \<Rightarrow> Invalid ''Message ID is not a string'' messageId)"

text \<open>
  Two predicates used to state what \<open>replaceAtSuffix\<close> removes: \<open>singleLine s\<close> says that no
  line terminator begins anywhere in \<open>s\<close>; \<open>noTerminatorWithin d r\<close> says that, in the text
  \<open>d @ r\<close>, no line terminator begins at a position inside \<open>d\<close>.
\<close>

fun singleLine :: "string \<Rightarrow> bool" where
  "singleLine [] = True"
| "singleLine (c # cs) = (\<not> lineTerminator (c # cs) \<and> singleLine cs)"

fun noTerminatorWithin :: "string \<Rightarrow> string \<Rightarrow> bool" where
  "noTerminatorWithin [] r = True"
| "noTerminatorWithin (c # cs) r =
     (\<not> lineTerminator (c # cs @ r) \<and> noTerminatorWithin cs r)"

subsection \<open>Splitting\<close>

lemma str_split_nonempty: "str_split sep s \<noteq> []"
  by (induction s) (auto split: list.splits)

lemma str_split_single: "sep \<notin> set p \<Longrightarrow> str_split sep p = [p]"
  by (induction p) auto

lemma str_split_append:
  "sep \<notin> set p \<Longrightarrow> str_split sep (p @ sep # r) = p # str_split sep r"
  by (induction p) auto

lemma str_join_split: "str_join sep (str_split sep s) = s"
proof (induction s)
  case Nil
  show ?case by simp
next
  case (Cons c cs)
  obtain p ps where e: "str_split sep cs = p # ps"
    using str_split_nonempty [of sep cs] by (cases "str_split sep cs") auto
  show ?case using Cons e by (cases ps) auto
qed

text \<open>The number of pieces is one more than the number of separators.\<close>

lemma length_str_split: "length (str_split sep s) = Suc (count_list s sep)"
proof (induction s)
  case Nil
  show ?case by simp
next
  case (Cons c cs)
  obtain p ps where e: "str_split sep cs = p # ps"
    using str_split_nonempty [of sep cs] by (cases "str_split sep cs") auto
  show ?case using Cons e by auto
qed

lemma str_split_four:
  assumes "CHR ''_'' \<notin> set p1" "CHR ''_'' \<notin> set p2" "CHR ''_'' \<notin> set p3" "CHR ''_'' \<notin> set p4"
  shows "str_split CHR ''_'' (p1 @ CHR ''_'' # p2 @ CHR ''_'' # p3 @ CHR ''_'' # p4) = [p1, p2, p3, p4]"
  using assms by (simp add: str_split_append str_split_single)

subsection \<open>The suffix expression\<close>

lemma skipDots_singleLine: "singleLine s \<Longrightarrow> skipDots s = []"
  by (induction s) auto

lemma replaceAtSuffix_singleLine:
  "singleLine s \<Longrightarrow> replaceAtSuffix s = takeWhile (\<lambda>c. c \<noteq> CHR ''@'') s"
  by (induction s) (auto simp: skipDots_singleLine)

lemma skipDots_stop: "r = [] \<or> lineTerminator r \<Longrightarrow> skipDots r = r"
  by (cases r) auto

lemma skipDots_run:
  "noTerminatorWithin d r \<Longrightarrow> r = [] \<or> lineTerminator r \<Longrightarrow> skipDots (d @ r) = r"
  by (induction d) (auto simp: skipDots_stop)

lemma replaceAtSuffix_run:
  "CHR ''@'' \<notin> set a \<Longrightarrow> noTerminatorWithin d r \<Longrightarrow> r = [] \<or> lineTerminator r \<Longrightarrow>
   replaceAtSuffix (a @ CHR ''@'' # d @ r) = a @ r"
  by (induction a) (auto simp: skipDots_run)

lemma replaceAtSuffix_no_at: "CHR ''@'' \<notin> set a \<Longrightarrow> replaceAtSuffix a = a"
  by (induction a) auto

subsection \<open>Claim C7\<close>

text \<open>
  C7 as the specification words it fails on one point: the sender's suffix is removed by
  \<open>/@.*/\<close>, whose dot stops at a line terminator, so "everything from \<open>@\<close> on" is removed
  only when no line terminator follows the \<open>@\<close> in part 4. At the identifier below, part 4
  is \<open>97250@c.us\<close>, a line feed and \<open>x\<close>: the parser keeps the line feed and the \<open>x\<close>.
\<close>

theorem parseMessageId_multiline_counterexample:
  "parseMessageId (JString (''false_120@g.us_ABC123_97250@c.us'' @ [CHR 0x0A] @ ''x''))
     = Valid ''120@g.us'' ''ABC123'' (''97250'' @ [CHR 0x0A] @ ''x'')
   \<and> senderId (parseMessageId (JString (''false_120@g.us_ABC123_97250@c.us'' @ [CHR 0x0A] @ ''x'')))
     \<noteq> takeWhile (\<lambda>c. c \<noteq> CHR ''@'') (''97250@c.us'' @ [CHR 0x0A] @ ''x'')"
  by (simp add: parseMessageId_def lineTerminator_def)

text \<open>
  C7 (amended): \<open>parseMessageId\<close> succeeds exactly when its input is a string with
  exactly three underscores, that is four parts. For parts \<open>p1\<close>, \<open>p2\<close>, \<open>p3\<close>, \<open>p4\<close> it returns
  \<open>chatId = p2\<close>, \<open>msgHashId = p3\<close> and \<open>senderId = p4\<close> with the first \<open>@\<close> and the
  characters after it up to the next line terminator (or the end of the string) removed;
  when no line terminator occurs in \<open>p4\<close> this is everything from the \<open>@\<close> on, and a \<open>p4\<close>
  without \<open>@\<close> is returned whole. A string of any other arity gives the fixed reason
  \<open>Invalid message ID format\<close>, an input that is not a string the fixed reason
  \<open>Message ID is not a string\<close>; both carry the raw input.
\<close>

theorem parseMessageId_four_parts:
  "(valid (parseMessageId v) \<longleftrightarrow> (\<exists>s. v = JString s \<and> count_list s CHR ''_'' = 3))
   \<and> (v = JString s \<and> count_list s CHR ''_'' \<noteq> 3 \<longrightarrow>
        parseMessageId v = Invalid ''Invalid message ID format'' v)
   \<and> ((\<forall>t. v \<noteq> JString t) \<longrightarrow> parseMessageId v = Invalid ''Message ID is not a string'' v)
   \<and> (CHR ''_'' \<notin> set p1 \<and> CHR ''_'' \<notin> set p2 \<and> CHR ''_'' \<notin> set p3 \<and> CHR ''_'' \<notin> set p4 \<longrightarrow>
        parseMessageId (JString (p1 @ CHR ''_'' # p2 @ CHR ''_'' # p3 @ CHR ''_'' # p4))
          = Valid p2 p3 (replaceAtSuffix p4))
   \<and> (CHR ''@'' \<notin> set p4 \<longrightarrow> replaceAtSuffix p4 = p4)
   \<and> (singleLine p4 \<longrightarrow> replaceAtSuffix p4 = takeWhile (\<lambda>c. c \<noteq> CHR ''@'') p4)
   \<and> (CHR ''@'' \<notin> set a \<and> noTerminatorWithin d r \<and> (r = [] \<or> lineTerminator r) \<longrightarrow>
        replaceAtSuffix (a @ CHR ''@'' # d @ r) = a @ r)"
proof -
  have ok: "valid (parseMessageId v) \<longleftrightarrow> (\<exists>s. v = JString s \<and> count_list s CHR ''_'' = 3)"
    by (cases v) (auto simp: parseMessageId_def Let_def length_str_split)
  have arity: "v = JString s \<and> count_list s CHR ''_'' \<noteq> 3 \<longrightarrow>
      parseMessageId v = Invalid ''Invalid message ID format'' v"
    by (auto simp: parseMessageId_def Let_def length_str_split)
  have nostr: "(\<forall>t. v \<noteq> JString t) \<longrightarrow> parseMessageId v = Invalid ''Message ID is not a string'' v"
    by (cases v) (auto simp: parseMessageId_def)
  have parts: "CHR ''_'' \<notin> set p1 \<and> CHR ''_'' \<notin> set p2 \<and> CHR ''_'' \<notin> set p3 \<and> CHR ''_'' \<notin> set p4 \<longrightarrow>
      parseMessageId (JString (p1 @ CHR ''_'' # p2 @ CHR ''_'' # p3 @ CHR ''_'' # p4))
        = Valid p2 p3 (replaceAtSuffix p4)"
    by (simp add: parseMessageId_def Let_def str_split_four)
  show ?thesis
    using ok arity nostr parts replaceAtSuffix_no_at [of p4] replaceAtSuffix_singleLine [of p4]
      replaceAtSuffix_run [of a d r]
    by blast
qed

text \<open>The identifier of the specification's Scenario A, through the theorem.\<close>

theorem parseMessageId_four_parts_witness:
  "CHR ''_'' \<notin> set ''false'' \<and> CHR ''_'' \<notin> set ''120@g.us'' \<and> CHR ''_'' \<notin> set ''ABC123''
   \<and> CHR ''_'' \<notin> set ''972501234567@c.us'' \<and> singleLine ''972501234567@c.us''
   \<and> CHR ''@'' \<notin> set ''972501234567'' \<and> noTerminatorWithin ''c.us'' []
   \<and> count_list ''false_120@g.us_ABC123_972501234567@c.us'' CHR ''_'' = 3
   \<and> valid (parseMessageId (JString ''false_120@g.us_ABC123_972501234567@c.us''))
   \<and> parseMessageId (JString ''false_120@g.us_ABC123_972501234567@c.us'')
       = Valid ''120@g.us'' ''ABC123'' ''972501234567''
   \<and> parseMessageId (JString ''a_b_c'') = Invalid ''Invalid message ID format'' (JString ''a_b_c'')
   \<and> parseMessageId (JNumber 7) = Invalid ''Message ID is not a string'' (JNumber 7)"
  using parseMessageId_four_parts [of "JString ''false_120@g.us_ABC123_972501234567@c.us''"
      "''false_120@g.us_ABC123_972501234567@c.us''" "''false''" "''120@g.us''" "''ABC123''"
      "''972501234567@c.us''" "''972501234567''" "''c.us''" "[]"]
    parseMessageId_four_parts [of "JString ''a_b_c''" "''a_b_c''"]
    parseMessageId_four_parts [of "JNumber 7"]
  by (simp add: lineTerminator_def)

section \<open>participants.js: the conflict-preserving merge\<close>

text \<open>
  A partial identity as \<open>parseParticipant\<close> builds it: each of \<open>id\<close>, \<open>phone\<close>, \<open>name\<close> and
  \<open>unknown\<close> may be absent. Record fields carry a prefix (\<open>i_\<close> for the inputs, \<open>m_\<close> for the
  merged object), since one theory cannot declare the same field name twice and \<open>id\<close> is
  HOL's identity function.
\<close>

record identity =
  i_id :: "string option"
  i_phone :: "string option"
  i_name :: "string option"
  i_unknown :: "string option"

record merged =
  m_id :: "string option"
  m_altId :: "string option"
  m_phone :: "string option"
  m_altPhone :: "string option"
  m_name :: "string option"
  m_altName :: "string option"

text \<open>\<open>const result = {}\<close>: every key is absent.\<close>

definition emptyResult :: merged where
  "emptyResult = \<lparr>m_id = None, m_altId = None, m_phone = None, m_altPhone = None,
                   m_name = None, m_altName = None\<rparr>"

text \<open>
  The function body, statement by statement: one \<open>if\<close>/\<open>else\<close> for each of \<open>id\<close>, \<open>phone\<close>
  and \<open>name\<close>, then the two \<open>unknown\<close> fallbacks. The test \<open>a.id && b.id && a.id !== b.id\<close>
  reads truthiness, so an empty string counts as absent.
\<close>

definition mergeParticipants :: "identity \<Rightarrow> identity \<Rightarrow> merged" where
  "mergeParticipants a b =
     (let r1 = (if truthy (i_id a) \<and> truthy (i_id b) \<and> i_id a \<noteq> i_id b
                then emptyResult\<lparr>m_id := i_id a, m_altId := i_id b\<rparr>
                else emptyResult\<lparr>m_id := js_or (i_id a) (i_id b)\<rparr>);
          r2 = (if truthy (i_phone a) \<and> truthy (i_phone b) \<and> i_phone a \<noteq> i_phone b
                then r1\<lparr>m_phone := i_phone a, m_altPhone := i_phone b\<rparr>
                else r1\<lparr>m_phone := js_or (i_phone a) (i_phone b)\<rparr>);
          r3 = (if truthy (i_name a) \<and> truthy (i_name b) \<and> i_name a \<noteq> i_name b
                then r2\<lparr>m_name := i_name a, m_altName := i_name b\<rparr>
                else r2\<lparr>m_name := js_or (i_name a) (i_name b)\<rparr>);
          r4 = (if truthy (i_unknown a) \<and> \<not> truthy (m_name r3)
                then r3\<lparr>m_name := i_unknown a\<rparr> else r3);
          r5 = (if truthy (i_unknown b) \<and> \<not> truthy (m_name r4)
                then r4\<lparr>m_name := i_unknown b\<rparr> else r4)
      in r5)"

text \<open>
  The values an identity carries, and the values a merged object carries, each as the list
  of its non-empty field values.
\<close>

definition identityValues :: "identity \<Rightarrow> string option list" where
  "identityValues a = filter truthy [i_id a, i_phone a, i_name a, i_unknown a]"

definition mergedValues :: "merged \<Rightarrow> string option list" where
  "mergedValues r =
     filter truthy [m_id r, m_altId r, m_phone r, m_altPhone r, m_name r, m_altName r]"

text \<open>Both sides define the field, with different values.\<close>

definition conflict :: "string option \<Rightarrow> string option \<Rightarrow> bool" where
  "conflict x y = (truthy x \<and> truthy y \<and> x \<noteq> y)"

text \<open>The values a merged object holds for one field: under the primary key and the alt key.\<close>

definition idValues :: "merged \<Rightarrow> string option set" where
  "idValues r = set (filter truthy [m_id r, m_altId r])"

definition phoneValues :: "merged \<Rightarrow> string option set" where
  "phoneValues r = set (filter truthy [m_phone r, m_altPhone r])"

definition nameValues :: "merged \<Rightarrow> string option set" where
  "nameValues r = set (filter truthy [m_name r, m_altName r])"

subsection \<open>What each key of the result holds\<close>

lemma m_id_merge:
  "m_id (mergeParticipants a b) =
     (if conflict (i_id a) (i_id b) then i_id a else js_or (i_id a) (i_id b))"
  by (simp add: mergeParticipants_def Let_def conflict_def emptyResult_def)

lemma m_altId_merge:
  "m_altId (mergeParticipants a b) = (if conflict (i_id a) (i_id b) then i_id b else None)"
  by (simp add: mergeParticipants_def Let_def conflict_def emptyResult_def)

lemma m_phone_merge:
  "m_phone (mergeParticipants a b) =
     (if conflict (i_phone a) (i_phone b) then i_phone a else js_or (i_phone a) (i_phone b))"
  by (simp add: mergeParticipants_def Let_def conflict_def emptyResult_def)

lemma m_altPhone_merge:
  "m_altPhone (mergeParticipants a b) =
     (if conflict (i_phone a) (i_phone b) then i_phone b else None)"
  by (simp add: mergeParticipants_def Let_def conflict_def emptyResult_def)

lemma m_altName_merge:
  "m_altName (mergeParticipants a b) =
     (if conflict (i_name a) (i_name b) then i_name b else None)"
  by (simp add: mergeParticipants_def Let_def conflict_def emptyResult_def)

lemma m_name_merge:
  "m_name (mergeParticipants a b) =
     (if truthy (i_name a) then i_name a
      else if truthy (i_name b) then i_name b
      else if truthy (i_unknown a) then i_unknown a
      else if truthy (i_unknown b) then i_unknown b
      else i_name b)"
  by (simp add: mergeParticipants_def Let_def conflict_def emptyResult_def js_or_def)

lemmas merge_keys =
  m_id_merge m_altId_merge m_phone_merge m_altPhone_merge m_name_merge m_altName_merge

lemma idValues_merge:
  "idValues (mergeParticipants a b) = set (filter truthy [i_id a, i_id b])"
  by (auto simp: idValues_def merge_keys conflict_def js_or_def)

lemma phoneValues_merge:
  "phoneValues (mergeParticipants a b) = set (filter truthy [i_phone a, i_phone b])"
  by (auto simp: phoneValues_def merge_keys conflict_def js_or_def)

lemma nameValues_merge_named:
  "truthy (i_name a) \<or> truthy (i_name b) \<Longrightarrow>
   nameValues (mergeParticipants a b) = set (filter truthy [i_name a, i_name b])"
  by (auto simp: nameValues_def merge_keys conflict_def js_or_def)

lemma nameValues_merge_unnamed:
  "\<not> truthy (i_name a) \<Longrightarrow> \<not> truthy (i_name b) \<Longrightarrow>
   nameValues (mergeParticipants a b) =
     (if truthy (i_unknown a) then {i_unknown a}
      else if truthy (i_unknown b) then {i_unknown b} else {})"
  by (auto simp: nameValues_def merge_keys conflict_def js_or_def)

lemma mergedValues_split:
  "set (mergedValues r) = idValues r \<union> phoneValues r \<union> nameValues r"
  by (auto simp: mergedValues_def idValues_def phoneValues_def nameValues_def)

lemma nameValues_lower:
  "set (filter truthy [i_name a, i_name b]) \<subseteq> nameValues (mergeParticipants a b)"
  by (cases "truthy (i_name a) \<or> truthy (i_name b)") (auto simp: nameValues_merge_named)

lemma nameValues_upper:
  "nameValues (mergeParticipants a b)
     \<subseteq> set (filter truthy [i_name a, i_name b, i_unknown a, i_unknown b])"
  by (cases "truthy (i_name a) \<or> truthy (i_name b)")
    (auto simp: nameValues_merge_named nameValues_merge_unnamed)

subsection \<open>Claim C1\<close>

text \<open>
  C1 as the specification words it ("every field value present in either input is
  retained") fails for the \<open>unknown\<close> token, which \<open>parseParticipant\<close> produces for a string
  that is neither a phone number nor a linked id: the merge uses a token only as a fallback
  name. Merging \<open>{unknown: "foo"}\<close> with \<open>{unknown: "bar"}\<close> gives \<open>{name: "foo"}\<close>, and
  \<open>bar\<close> is under no key of the result.
\<close>

theorem mergeParticipants_unknown_counterexample:
  "Some ''bar'' \<in> set (identityValues
      \<lparr>i_id = None, i_phone = None, i_name = None, i_unknown = Some ''bar''\<rparr>)
   \<and> Some ''bar'' \<notin> set (mergedValues (mergeParticipants
      \<lparr>i_id = None, i_phone = None, i_name = None, i_unknown = Some ''foo''\<rparr>
      \<lparr>i_id = None, i_phone = None, i_name = None, i_unknown = Some ''bar''\<rparr>))
   \<and> mergeParticipants
      \<lparr>i_id = None, i_phone = None, i_name = None, i_unknown = Some ''foo''\<rparr>
      \<lparr>i_id = None, i_phone = None, i_name = None, i_unknown = Some ''bar''\<rparr>
     = \<lparr>m_id = None, m_altId = None, m_phone = None, m_altPhone = None,
        m_name = Some ''foo'', m_altName = None\<rparr>"
  by (simp add: identityValues_def mergedValues_def mergeParticipants_def emptyResult_def
      js_or_def)

text \<open>
  C1 (amended): for all partial identities \<open>a\<close> and \<open>b\<close>, every non-empty \<open>id\<close>, \<open>phone\<close> and
  \<open>name\<close> value of either input is a value of \<open>mergeParticipants a b\<close>, and the result holds
  no value that neither input has. For each of these three fields, a non-empty value of
  \<open>a\<close> is under the primary key; when both inputs define the field with differing
  non-empty values, \<open>b\<close>'s value is under the alt-prefixed key (\<open>altId\<close>, \<open>altPhone\<close>,
  \<open>altName\<close>); when only \<open>b\<close> defines it, \<open>b\<close>'s value is under the primary key. An
  \<open>unknown\<close> token is kept only when neither input has a non-empty name: it becomes the
  name, \<open>a\<close>'s token first, else \<open>b\<close>'s.
\<close>

theorem mergeParticipants_retains:
  "set (filter truthy [i_id a, i_phone a, i_name a, i_id b, i_phone b, i_name b])
     \<subseteq> set (mergedValues (mergeParticipants a b))
   \<and> set (mergedValues (mergeParticipants a b))
     \<subseteq> set (identityValues a) \<union> set (identityValues b)
   \<and> (truthy (i_id a) \<longrightarrow> m_id (mergeParticipants a b) = i_id a)
   \<and> (truthy (i_phone a) \<longrightarrow> m_phone (mergeParticipants a b) = i_phone a)
   \<and> (truthy (i_name a) \<longrightarrow> m_name (mergeParticipants a b) = i_name a)
   \<and> (conflict (i_id a) (i_id b) \<longrightarrow> m_altId (mergeParticipants a b) = i_id b)
   \<and> (conflict (i_phone a) (i_phone b) \<longrightarrow> m_altPhone (mergeParticipants a b) = i_phone b)
   \<and> (conflict (i_name a) (i_name b) \<longrightarrow> m_altName (mergeParticipants a b) = i_name b)
   \<and> (\<not> truthy (i_id a) \<and> truthy (i_id b) \<longrightarrow> m_id (mergeParticipants a b) = i_id b)
   \<and> (\<not> truthy (i_phone a) \<and> truthy (i_phone b) \<longrightarrow>
        m_phone (mergeParticipants a b) = i_phone b)
   \<and> (\<not> truthy (i_name a) \<and> truthy (i_name b) \<longrightarrow> m_name (mergeParticipants a b) = i_name b)
   \<and> (\<not> truthy (i_name a) \<and> \<not> truthy (i_name b) \<and> truthy (i_unknown a) \<longrightarrow>
        m_name (mergeParticipants a b) = i_unknown a)
   \<and> (\<not> truthy (i_name a) \<and> \<not> truthy (i_name b) \<and> \<not> truthy (i_unknown a)
        \<and> truthy (i_unknown b) \<longrightarrow> m_name (mergeParticipants a b) = i_unknown b)"
proof -
  have kept: "set (filter truthy [i_id a, i_phone a, i_name a, i_id b, i_phone b, i_name b])
      \<subseteq> set (mergedValues (mergeParticipants a b))"
    using nameValues_lower [of a b]
    unfolding mergedValues_split idValues_merge phoneValues_merge set_filter by auto
  have sound: "set (mergedValues (mergeParticipants a b))
      \<subseteq> set (identityValues a) \<union> set (identityValues b)"
    using nameValues_upper [of a b]
    unfolding mergedValues_split idValues_merge phoneValues_merge identityValues_def set_filter
    by auto
  have keys: "(truthy (i_id a) \<longrightarrow> m_id (mergeParticipants a b) = i_id a)
      \<and> (truthy (i_phone a) \<longrightarrow> m_phone (mergeParticipants a b) = i_phone a)
      \<and> (truthy (i_name a) \<longrightarrow> m_name (mergeParticipants a b) = i_name a)
      \<and> (\<not> truthy (i_id a) \<and> truthy (i_id b) \<longrightarrow> m_id (mergeParticipants a b) = i_id b)
      \<and> (\<not> truthy (i_phone a) \<and> truthy (i_phone b) \<longrightarrow>
           m_phone (mergeParticipants a b) = i_phone b)
      \<and> (\<not> truthy (i_name a) \<and> truthy (i_name b) \<longrightarrow>
           m_name (mergeParticipants a b) = i_name b)"
    by (simp add: merge_keys conflict_def js_or_def)
  have alts: "(conflict (i_id a) (i_id b) \<longrightarrow> m_altId (mergeParticipants a b) = i_id b)
      \<and> (conflict (i_phone a) (i_phone b) \<longrightarrow> m_altPhone (mergeParticipants a b) = i_phone b)
      \<and> (conflict (i_name a) (i_name b) \<longrightarrow> m_altName (mergeParticipants a b) = i_name b)"
    by (simp add: merge_keys)
  have tokens: "(\<not> truthy (i_name a) \<and> \<not> truthy (i_name b) \<and> truthy (i_unknown a) \<longrightarrow>
        m_name (mergeParticipants a b) = i_unknown a)
      \<and> (\<not> truthy (i_name a) \<and> \<not> truthy (i_name b) \<and> \<not> truthy (i_unknown a)
          \<and> truthy (i_unknown b) \<longrightarrow> m_name (mergeParticipants a b) = i_unknown b)"
    by (simp add: merge_keys)
  from kept sound keys alts tokens show ?thesis by simp
qed

text \<open>
  A linked-id identity merged with a phone identity of the same name and another linked id:
  the ids conflict, the phone comes from \<open>b\<close> alone, the names agree.
\<close>

theorem mergeParticipants_retains_witness:
  "truthy (Some ''123@lid'') \<and> conflict (Some ''123@lid'') (Some ''456@lid'')
   \<and> \<not> truthy None \<and> truthy (Some ''972501234567'')
   \<and> mergeParticipants
        \<lparr>i_id = Some ''123@lid'', i_phone = None, i_name = Some ''Dana'', i_unknown = None\<rparr>
        \<lparr>i_id = Some ''456@lid'', i_phone = Some ''972501234567'', i_name = Some ''Dana'',
          i_unknown = None\<rparr>
      = \<lparr>m_id = Some ''123@lid'', m_altId = Some ''456@lid'', m_phone = Some ''972501234567'',
         m_altPhone = None, m_name = Some ''Dana'', m_altName = None\<rparr>
   \<and> m_id (mergeParticipants
        \<lparr>i_id = Some ''123@lid'', i_phone = None, i_name = Some ''Dana'', i_unknown = None\<rparr>
        \<lparr>i_id = Some ''456@lid'', i_phone = Some ''972501234567'', i_name = Some ''Dana'',
          i_unknown = None\<rparr>) = Some ''123@lid''
   \<and> m_altId (mergeParticipants
        \<lparr>i_id = Some ''123@lid'', i_phone = None, i_name = Some ''Dana'', i_unknown = None\<rparr>
        \<lparr>i_id = Some ''456@lid'', i_phone = Some ''972501234567'', i_name = Some ''Dana'',
          i_unknown = None\<rparr>) = Some ''456@lid''
   \<and> m_phone (mergeParticipants
        \<lparr>i_id = Some ''123@lid'', i_phone = None, i_name = Some ''Dana'', i_unknown = None\<rparr>
        \<lparr>i_id = Some ''456@lid'', i_phone = Some ''972501234567'', i_name = Some ''Dana'',
          i_unknown = None\<rparr>) = Some ''972501234567''"
  using mergeParticipants_retains
    [of "\<lparr>i_id = Some ''123@lid'', i_phone = None, i_name = Some ''Dana'', i_unknown = None\<rparr>"
        "\<lparr>i_id = Some ''456@lid'', i_phone = Some ''972501234567'', i_name = Some ''Dana'',
          i_unknown = None\<rparr>"]
  by (simp add: conflict_def mergeParticipants_def emptyResult_def js_or_def)

subsection \<open>Claim C2\<close>

text \<open>
  C2 as the specification words it fails for the same reason: with two different \<open>unknown\<close>
  tokens and no name, each order keeps only its first argument's token, so the two results
  do not hold the same values.
\<close>

theorem mergeParticipants_swap_counterexample:
  "mergedValues (mergeParticipants
      \<lparr>i_id = None, i_phone = None, i_name = None, i_unknown = Some ''Dana''\<rparr>
      \<lparr>i_id = None, i_phone = None, i_name = None, i_unknown = Some ''Noa''\<rparr>)
     = [Some ''Dana'']
   \<and> mergedValues (mergeParticipants
      \<lparr>i_id = None, i_phone = None, i_name = None, i_unknown = Some ''Noa''\<rparr>
      \<lparr>i_id = None, i_phone = None, i_name = None, i_unknown = Some ''Dana''\<rparr>)
     = [Some ''Noa'']
   \<and> set (mergedValues (mergeParticipants
      \<lparr>i_id = None, i_phone = None, i_name = None, i_unknown = Some ''Dana''\<rparr>
      \<lparr>i_id = None, i_phone = None, i_name = None, i_unknown = Some ''Noa''\<rparr>))
     \<noteq> set (mergedValues (mergeParticipants
      \<lparr>i_id = None, i_phone = None, i_name = None, i_unknown = Some ''Noa''\<rparr>
      \<lparr>i_id = None, i_phone = None, i_name = None, i_unknown = Some ''Dana''\<rparr>))"
proof -
  have ab: "mergedValues (mergeParticipants
      \<lparr>i_id = None, i_phone = None, i_name = None, i_unknown = Some ''Dana''\<rparr>
      \<lparr>i_id = None, i_phone = None, i_name = None, i_unknown = Some ''Noa''\<rparr>)
     = [Some ''Dana'']"
    by (simp add: mergedValues_def mergeParticipants_def emptyResult_def js_or_def)
  have ba: "mergedValues (mergeParticipants
      \<lparr>i_id = None, i_phone = None, i_name = None, i_unknown = Some ''Noa''\<rparr>
      \<lparr>i_id = None, i_phone = None, i_name = None, i_unknown = Some ''Dana''\<rparr>)
     = [Some ''Noa'']"
    by (simp add: mergedValues_def mergeParticipants_def emptyResult_def js_or_def)
  show ?thesis
    unfolding ab ba by simp
qed

text \<open>
  C2 (amended): for all partial identities, the two argument orders hold the same non-empty
  \<open>id\<close> values (under \<open>id\<close> and \<open>altId\<close> together) and the same non-empty \<open>phone\<close> values; they
  hold the same \<open>name\<close> values exactly when it is not the case that neither input has a
  non-empty name while the two \<open>unknown\<close> tokens are non-empty and differ. Outside that case
  the two results hold exactly the same set of values, and on a conflicting field the
  order decides only which side's value is under the primary key and which under the alt
  key.
\<close>

theorem mergeParticipants_swap:
  "idValues (mergeParticipants a b) = idValues (mergeParticipants b a)
   \<and> phoneValues (mergeParticipants a b) = phoneValues (mergeParticipants b a)
   \<and> (nameValues (mergeParticipants a b) = nameValues (mergeParticipants b a)
        \<longleftrightarrow> \<not> (\<not> truthy (i_name a) \<and> \<not> truthy (i_name b)
                \<and> conflict (i_unknown a) (i_unknown b)))
   \<and> (truthy (i_name a) \<or> truthy (i_name b) \<or> \<not> conflict (i_unknown a) (i_unknown b) \<longrightarrow>
        set (mergedValues (mergeParticipants a b)) = set (mergedValues (mergeParticipants b a)))
   \<and> (conflict (i_id a) (i_id b) \<longrightarrow>
        m_id (mergeParticipants a b) = m_altId (mergeParticipants b a)
        \<and> m_altId (mergeParticipants a b) = m_id (mergeParticipants b a))
   \<and> (conflict (i_phone a) (i_phone b) \<longrightarrow>
        m_phone (mergeParticipants a b) = m_altPhone (mergeParticipants b a)
        \<and> m_altPhone (mergeParticipants a b) = m_phone (mergeParticipants b a))
   \<and> (conflict (i_name a) (i_name b) \<longrightarrow>
        m_name (mergeParticipants a b) = m_altName (mergeParticipants b a)
        \<and> m_altName (mergeParticipants a b) = m_name (mergeParticipants b a))"
proof -
  have ids: "idValues (mergeParticipants a b) = idValues (mergeParticipants b a)"
    by (auto simp: idValues_merge)
  have phones: "phoneValues (mergeParticipants a b) = phoneValues (mergeParticipants b a)"
    by (auto simp: phoneValues_merge)
  have names: "nameValues (mergeParticipants a b) = nameValues (mergeParticipants b a)
      \<longleftrightarrow> \<not> (\<not> truthy (i_name a) \<and> \<not> truthy (i_name b)
              \<and> conflict (i_unknown a) (i_unknown b))"
  proof (cases "truthy (i_name a) \<or> truthy (i_name b)")
    case True
    then have "nameValues (mergeParticipants a b) = nameValues (mergeParticipants b a)"
      by (auto simp: nameValues_merge_named)
    with True show ?thesis by blast
  next
    case False
    then show ?thesis
      by (auto simp: nameValues_merge_unnamed conflict_def)
  qed
  have all: "truthy (i_name a) \<or> truthy (i_name b) \<or> \<not> conflict (i_unknown a) (i_unknown b) \<longrightarrow>
      set (mergedValues (mergeParticipants a b)) = set (mergedValues (mergeParticipants b a))"
    using ids phones names by (auto simp: mergedValues_split)
  have sym: "\<And>x y. conflict x y \<Longrightarrow> conflict y x"
    by (auto simp: conflict_def)
  have swapped: "(conflict (i_id a) (i_id b) \<longrightarrow>
        m_id (mergeParticipants a b) = m_altId (mergeParticipants b a)
        \<and> m_altId (mergeParticipants a b) = m_id (mergeParticipants b a))
      \<and> (conflict (i_phone a) (i_phone b) \<longrightarrow>
        m_phone (mergeParticipants a b) = m_altPhone (mergeParticipants b a)
        \<and> m_altPhone (mergeParticipants a b) = m_phone (mergeParticipants b a))
      \<and> (conflict (i_name a) (i_name b) \<longrightarrow>
        m_name (mergeParticipants a b) = m_altName (mergeParticipants b a)
        \<and> m_altName (mergeParticipants a b) = m_name (mergeParticipants b a))"
  proof -
    have "conflict (i_id a) (i_id b) \<longrightarrow> conflict (i_id b) (i_id a)"
      and "conflict (i_phone a) (i_phone b) \<longrightarrow> conflict (i_phone b) (i_phone a)"
      and "conflict (i_name a) (i_name b) \<longrightarrow> conflict (i_name b) (i_name a)"
      by (simp_all add: sym)
    moreover have "conflict (i_name a) (i_name b) \<longrightarrow> truthy (i_name a) \<and> truthy (i_name b)"
      by (simp add: conflict_def)
    ultimately show ?thesis
      by (simp add: merge_keys)
  qed
  from ids phones names all swapped show ?thesis by simp
qed

text \<open>Two identities with conflicting phones and one token each, a name on one side.\<close>

theorem mergeParticipants_swap_witness:
  "truthy (Some ''Dana'') \<and> conflict (Some ''972501111111'') (Some ''972502222222'')
   \<and> mergeParticipants
        \<lparr>i_id = None, i_phone = Some ''972501111111'', i_name = Some ''Dana'',
          i_unknown = Some ''x''\<rparr>
        \<lparr>i_id = None, i_phone = Some ''972502222222'', i_name = None, i_unknown = Some ''y''\<rparr>
      = \<lparr>m_id = None, m_altId = None, m_phone = Some ''972501111111'',
         m_altPhone = Some ''972502222222'', m_name = Some ''Dana'', m_altName = None\<rparr>
   \<and> mergeParticipants
        \<lparr>i_id = None, i_phone = Some ''972502222222'', i_name = None, i_unknown = Some ''y''\<rparr>
        \<lparr>i_id = None, i_phone = Some ''972501111111'', i_name = Some ''Dana'',
          i_unknown = Some ''x''\<rparr>
      = \<lparr>m_id = None, m_altId = None, m_phone = Some ''972502222222'',
         m_altPhone = Some ''972501111111'', m_name = Some ''Dana'', m_altName = None\<rparr>
   \<and> set (mergedValues (mergeParticipants
        \<lparr>i_id = None, i_phone = Some ''972501111111'', i_name = Some ''Dana'',
          i_unknown = Some ''x''\<rparr>
        \<lparr>i_id = None, i_phone = Some ''972502222222'', i_name = None, i_unknown = Some ''y''\<rparr>))
     = set (mergedValues (mergeParticipants
        \<lparr>i_id = None, i_phone = Some ''972502222222'', i_name = None, i_unknown = Some ''y''\<rparr>
        \<lparr>i_id = None, i_phone = Some ''972501111111'', i_name = Some ''Dana'',
          i_unknown = Some ''x''\<rparr>))"
  using mergeParticipants_swap
    [of "\<lparr>i_id = None, i_phone = Some ''972501111111'', i_name = Some ''Dana'',
          i_unknown = Some ''x''\<rparr>"
        "\<lparr>i_id = None, i_phone = Some ''972502222222'', i_name = None, i_unknown = Some ''y''\<rparr>"]
  by (simp add: conflict_def mergeParticipants_def emptyResult_def js_or_def)

section \<open>crawl-service.js: the retry envelope\<close>

text \<open>
  A thrown error is an object with an optional \<open>message\<close>. The wrapped operation is an
  effectful thunk: it is modelled by the script of its outcomes, \<open>operation n\<close> being what
  its invocation number \<open>n\<close> (counted from 0 over the whole run) throws (\<open>Inl\<close>) or returns
  (\<open>Inr\<close>). The envelope threads the number of invocations made so far, and records the
  delays it slept, in order. Delays are JavaScript numbers; they are modelled by rationals,
  so that the factor 1.5 is exact.
\<close>

datatype js_error = Error (message: "string option")

datatype 'a settled = Fulfilled 'a | FulfilledUndefined | RejectedWith js_error

record 'a retry_run =
  r_outcome :: "'a settled"
  r_calls :: nat
  r_slept :: "rat list"

text \<open>
  The test \<open>error.message && (error.message.includes(...) || ...)\<close> of the \<open>catch\<close> block.
\<close>

definition isDetachedFrame :: "js_error \<Rightarrow> bool" where
  "isDetachedFrame error =
     (case message error of
        None \<Rightarrow> False
      | Some m \<Rightarrow> m \<noteq> [] \<and>
          (str_includes m ''detached Frame'' \<or>
           str_includes m ''Execution context was destroyed'' \<or>
           str_includes m ''Cannot find context'' \<or>
           str_includes m ''Protocol error''))"

text \<open>
  The \<open>for\<close> loop, from the value \<open>attempt\<close> of its counter. When the loop ends without a
  \<open>return\<close> or a \<open>throw\<close> (only for \<open>maxRetries < 1\<close>) the function returns \<open>undefined\<close>.
\<close>

function retryLoop ::
  "(nat \<Rightarrow> js_error + 'a) \<Rightarrow> nat \<Rightarrow> nat \<Rightarrow> rat \<Rightarrow> nat \<Rightarrow> rat list \<Rightarrow> 'a retry_run" where
  "retryLoop operation maxRetries attempt delay calls slept =
     (if attempt \<le> maxRetries then
        (case operation calls of
           Inr v \<Rightarrow> \<lparr>r_outcome = Fulfilled v, r_calls = Suc calls, r_slept = slept\<rparr>
         | Inl error \<Rightarrow>
             if isDetachedFrame error \<and> attempt < maxRetries
             then retryLoop operation maxRetries (Suc attempt) (delay * (3 / 2)) (Suc calls)
                    (slept @ [delay])
             else \<lparr>r_outcome = RejectedWith error, r_calls = Suc calls, r_slept = slept\<rparr>)
      else \<lparr>r_outcome = FulfilledUndefined, r_calls = calls, r_slept = slept\<rparr>)"
  by pat_completeness auto
termination
  by (relation "measure (\<lambda>(operation, maxRetries, attempt, delay, calls, slept).
        Suc maxRetries - attempt)") auto

declare retryLoop.simps [simp del]

definition retryOnDetachedFrame ::
  "(nat \<Rightarrow> js_error + 'a) \<Rightarrow> nat \<Rightarrow> rat \<Rightarrow> nat \<Rightarrow> 'a retry_run" where
  "retryOnDetachedFrame operation maxRetries delay calls =
     retryLoop operation maxRetries 1 delay calls []"

text \<open>The delays of the first \<open>k\<close> retries: \<open>delay\<close>, then 1.5 times the previous one.\<close>

definition backoff :: "rat \<Rightarrow> nat \<Rightarrow> rat list" where
  "backoff delay k = map (\<lambda>i. delay * (3 / 2) ^ i) [0..<k]"

text \<open>The first \<open>k\<close> invocations from number \<open>calls\<close> on all throw a transient error.\<close>

definition transientRun :: "(nat \<Rightarrow> js_error + 'a) \<Rightarrow> nat \<Rightarrow> nat \<Rightarrow> bool" where
  "transientRun operation calls k =
     (\<forall>i < k. case operation (calls + i) of Inl e \<Rightarrow> isDetachedFrame e | Inr v \<Rightarrow> False)"

subsection \<open>Properties of the retry loop\<close>

lemma backoff_Suc: "backoff delay (Suc k) = delay # backoff (delay * (3 / 2)) k"
proof -
  have "[0..<Suc k] = 0 # map Suc [0..<k]"
    by (simp add: upt_conv_Cons map_Suc_upt del: upt_Suc)
  then show ?thesis
    by (simp add: backoff_def comp_def del: upt_Suc)
qed

lemma transientRun_Suc:
  "transientRun operation calls (Suc k) \<longleftrightarrow>
     (case operation calls of Inl e \<Rightarrow> isDetachedFrame e | Inr v \<Rightarrow> False)
     \<and> transientRun operation (Suc calls) k"
proof -
  have "(\<forall>i < Suc k. P i) \<longleftrightarrow> P 0 \<and> (\<forall>i < k. P (Suc i))" for P
    using less_Suc_eq_0_disj by auto
  then show ?thesis
    by (simp add: transientRun_def)
qed

lemma retryLoop_skip:
  "transientRun operation calls k \<Longrightarrow> attempt + k \<le> maxRetries \<Longrightarrow>
   retryLoop operation maxRetries attempt delay calls slept =
   retryLoop operation maxRetries (attempt + k) (delay * (3 / 2) ^ k) (calls + k)
     (slept @ backoff delay k)"
proof (induction k arbitrary: attempt delay calls slept)
  case 0
  show ?case by (simp add: backoff_def)
next
  case (Suc k)
  from Suc.prems obtain e where e: "operation calls = Inl e" "isDetachedFrame e"
    and rest: "transientRun operation (Suc calls) k"
    by (auto simp: transientRun_Suc split: sum.splits)
  have "retryLoop operation maxRetries attempt delay calls slept =
      retryLoop operation maxRetries (Suc attempt) (delay * (3 / 2)) (Suc calls) (slept @ [delay])"
    using e Suc.prems(2) by (subst retryLoop.simps) simp
  also have "\<dots> = retryLoop operation maxRetries (Suc attempt + k) (delay * (3 / 2) * (3 / 2) ^ k)
      (Suc calls + k) ((slept @ [delay]) @ backoff (delay * (3 / 2)) k)"
    using Suc.prems(2) by (intro Suc.IH [OF rest]) simp
  finally show ?case
    by (simp add: backoff_Suc mult.assoc)
qed

lemma backoff_increasing: "0 < delay \<Longrightarrow> sorted_wrt (<) (backoff delay k)"
proof (induction k arbitrary: delay)
  case 0
  show ?case by (simp add: backoff_def)
next
  case (Suc k)
  have "delay < x" if "x \<in> set (backoff (delay * (3 / 2)) k)" for x
  proof -
    from that have "x \<in> (\<lambda>i. delay * (3 / 2) * (3 / 2) ^ i) ` {0..<k}"
      by (simp add: backoff_def)
    then obtain i where x: "x = delay * (3 / 2) * (3 / 2) ^ i"
      by blast
    have "(1::rat) \<le> (3 / 2) ^ i"
      by (rule one_le_power) simp
    then have "(1::rat) < 3 / 2 * (3 / 2) ^ i"
      by linarith
    then have "delay * 1 < delay * (3 / 2 * (3 / 2) ^ i)"
      using Suc.prems by (rule mult_strict_left_mono)
    then show ?thesis
      by (simp add: x mult.assoc)
  qed
  moreover have "sorted_wrt (<) (backoff (delay * (3 / 2)) k)"
    using Suc.prems by (intro Suc.IH) simp
  ultimately show ?case
    by (simp add: backoff_Suc)
qed

lemma retryLoop_calls:
  "attempt \<le> maxRetries \<Longrightarrow>
   Suc calls \<le> r_calls (retryLoop operation maxRetries attempt delay calls slept)"
proof (induction operation maxRetries attempt delay calls slept rule: retryLoop.induct)
  case (1 operation maxRetries attempt delay calls slept)
  show ?case
  proof (cases "operation calls")
    case (Inr v)
    with "1.prems" show ?thesis by (subst retryLoop.simps) simp
  next
    case (Inl e)
    show ?thesis
    proof (cases "isDetachedFrame e \<and> attempt < maxRetries")
      case True
      with "1.prems" Inl
      have "Suc (Suc calls) \<le> r_calls (retryLoop operation maxRetries (Suc attempt)
          (delay * (3 / 2)) (Suc calls) (slept @ [delay]))"
        by (intro "1.IH") auto
      with True "1.prems" Inl show ?thesis by (subst retryLoop.simps) simp
    next
      case False
      with "1.prems" Inl show ?thesis by (subst retryLoop.simps) auto
    qed
  qed
qed

lemma retryLoop_slept:
  "prefix slept (r_slept (retryLoop operation maxRetries attempt delay calls slept))"
proof (induction operation maxRetries attempt delay calls slept rule: retryLoop.induct)
  case (1 operation maxRetries attempt delay calls slept)
  show ?case
  proof (cases "attempt \<le> maxRetries")
    case False
    then show ?thesis by (subst retryLoop.simps) simp
  next
    case le: True
    show ?thesis
    proof (cases "operation calls")
      case (Inr v)
      with le show ?thesis by (subst retryLoop.simps) simp
    next
      case (Inl e)
      show ?thesis
      proof (cases "isDetachedFrame e \<and> attempt < maxRetries")
        case True
        with le Inl
        have "prefix (slept @ [delay]) (r_slept (retryLoop operation maxRetries (Suc attempt)
            (delay * (3 / 2)) (Suc calls) (slept @ [delay])))"
          by (intro "1.IH") auto
        then have "prefix slept (r_slept (retryLoop operation maxRetries (Suc attempt)
            (delay * (3 / 2)) (Suc calls) (slept @ [delay])))"
          using append_prefixD by blast
        with True le Inl show ?thesis by (subst retryLoop.simps) simp
      next
        case False
        with le Inl show ?thesis by (subst retryLoop.simps) auto
      qed
    qed
  qed
qed

lemma isDetachedFrame_iff:
  "isDetachedFrame e \<longleftrightarrow>
     (\<exists>m. message e = Some m \<and>
        (sublist ''detached Frame'' m \<or> sublist ''Execution context was destroyed'' m \<or>
         sublist ''Cannot find context'' m \<or> sublist ''Protocol error'' m))"
  by (cases "message e") (auto simp: isDetachedFrame_def str_includes_def)

subsection \<open>Claim C3\<close>

text \<open>
  C3: let the first \<open>k\<close> attempts of a call with bound \<open>maxRetries > k\<close> throw transient
  errors (errors whose message contains \<open>detached Frame\<close>, \<open>Execution context was destroyed\<close>,
  \<open>Cannot find context\<close> or \<open>Protocol error\<close>). Then, for attempt \<open>k + 1\<close>:
  \<^item> if it returns \<open>v\<close>, the envelope returns \<open>v\<close> and surfaces no error;
  \<^item> if it throws an error that is not transient, that error propagates at once: the
    operation is not invoked again and no further delay is slept;
  \<^item> if it throws and it was the last attempt allowed, that error propagates unchanged,
    after exactly \<open>maxRetries\<close> invocations;
  \<^item> if it throws a transient error and attempts remain, the envelope sleeps and invokes
    the operation again.

  The delays slept are \<open>delay\<close>, \<open>1.5 * delay\<close>, \<open>1.5\<^sup>2 * delay\<close>, ...: strictly increasing
  for a positive initial delay (every call site passes 1000 or 2000).
\<close>

theorem retryOnDetachedFrame_envelope:
  assumes "transientRun operation calls k" and "k < maxRetries"
  shows "(operation (calls + k) = Inr v \<longrightarrow>
            retryOnDetachedFrame operation maxRetries delay calls =
              \<lparr>r_outcome = Fulfilled v, r_calls = calls + k + 1, r_slept = backoff delay k\<rparr>)
       \<and> (operation (calls + k) = Inl e \<and> \<not> isDetachedFrame e \<longrightarrow>
            retryOnDetachedFrame operation maxRetries delay calls =
              \<lparr>r_outcome = RejectedWith e, r_calls = calls + k + 1, r_slept = backoff delay k\<rparr>)
       \<and> (operation (calls + k) = Inl e \<and> Suc k = maxRetries \<longrightarrow>
            retryOnDetachedFrame operation maxRetries delay calls =
              \<lparr>r_outcome = RejectedWith e, r_calls = calls + maxRetries,
               r_slept = backoff delay k\<rparr>)
       \<and> (operation (calls + k) = Inl e \<and> isDetachedFrame e \<and> Suc k < maxRetries \<longrightarrow>
            calls + k + 2 \<le> r_calls (retryOnDetachedFrame operation maxRetries delay calls)
            \<and> prefix (backoff delay (Suc k))
                 (r_slept (retryOnDetachedFrame operation maxRetries delay calls)))
       \<and> (0 < delay \<longrightarrow> sorted_wrt (<) (backoff delay (Suc k)))
       \<and> (isDetachedFrame e \<longleftrightarrow>
            (\<exists>m. message e = Some m \<and>
              (sublist ''detached Frame'' m \<or> sublist ''Execution context was destroyed'' m \<or>
               sublist ''Cannot find context'' m \<or> sublist ''Protocol error'' m)))"
proof -
  have start: "retryOnDetachedFrame operation maxRetries delay calls =
      retryLoop operation maxRetries (Suc k) (delay * (3 / 2) ^ k) (calls + k) (backoff delay k)"
    using retryLoop_skip [OF assms(1), of 1 maxRetries delay "[]"] assms(2)
    by (simp add: retryOnDetachedFrame_def)
  have success: "operation (calls + k) = Inr v \<longrightarrow>
      retryOnDetachedFrame operation maxRetries delay calls =
        \<lparr>r_outcome = Fulfilled v, r_calls = calls + k + 1, r_slept = backoff delay k\<rparr>"
    using assms(2) unfolding start by (subst retryLoop.simps) simp
  have fatal: "operation (calls + k) = Inl e \<and> \<not> isDetachedFrame e \<longrightarrow>
      retryOnDetachedFrame operation maxRetries delay calls =
        \<lparr>r_outcome = RejectedWith e, r_calls = calls + k + 1, r_slept = backoff delay k\<rparr>"
    using assms(2) unfolding start by (subst retryLoop.simps) simp
  have exhausted: "operation (calls + k) = Inl e \<and> Suc k = maxRetries \<longrightarrow>
      retryOnDetachedFrame operation maxRetries delay calls =
        \<lparr>r_outcome = RejectedWith e, r_calls = calls + maxRetries, r_slept = backoff delay k\<rparr>"
    using assms(2) unfolding start by (subst retryLoop.simps) auto
  have again: "calls + k + 2 \<le> r_calls (retryOnDetachedFrame operation maxRetries delay calls)
      \<and> prefix (backoff delay (Suc k))
           (r_slept (retryOnDetachedFrame operation maxRetries delay calls))"
    if e: "operation (calls + k) = Inl e" "isDetachedFrame e" and more: "Suc k < maxRetries"
  proof -
    have "transientRun operation calls (Suc k)"
      using assms(1) e by (auto simp: transientRun_def less_Suc_eq)
    from retryLoop_skip [OF this, of 1 maxRetries delay "[]"] more
    have "retryOnDetachedFrame operation maxRetries delay calls =
        retryLoop operation maxRetries (Suc (Suc k)) (delay * (3 / 2) ^ Suc k) (calls + Suc k)
          (backoff delay (Suc k))"
      by (simp add: retryOnDetachedFrame_def)
    then show ?thesis
      using retryLoop_calls [of "Suc (Suc k)" maxRetries "calls + Suc k" operation
          "delay * (3 / 2) ^ Suc k" "backoff delay (Suc k)"]
        retryLoop_slept [of "backoff delay (Suc k)" operation maxRetries "Suc (Suc k)"
          "delay * (3 / 2) ^ Suc k" "calls + Suc k"] more
      by simp
  qed
  show ?thesis
    using success fatal exhausted again backoff_increasing [of delay "Suc k"]
      isDetachedFrame_iff [of e]
    by simp
qed

text \<open>
  Scenario D of the specification: a \<open>detached Frame\<close> error on attempt 1 of 3, success on
  attempt 2.
\<close>

theorem retryOnDetachedFrame_envelope_witness:
  "transientRun (\<lambda>n. if n = 0 then Inl (Error (Some ''Attempted to use detached Frame''))
                     else Inr ''page'') 0 1
   \<and> (1::nat) < 3
   \<and> isDetachedFrame (Error (Some ''Attempted to use detached Frame''))
   \<and> retryOnDetachedFrame
        (\<lambda>n. if n = 0 then Inl (Error (Some ''Attempted to use detached Frame''))
             else Inr ''page'') 3 1000 0
      = \<lparr>r_outcome = Fulfilled ''page'', r_calls = 2, r_slept = [1000]\<rparr>
   \<and> sorted_wrt (<) (backoff 1000 2) \<and> backoff 1000 2 = [1000, 1500]"
  using retryOnDetachedFrame_envelope
    [of "\<lambda>n. if n = 0 then Inl (Error (Some ''Attempted to use detached Frame''))
              else Inr ''page''" 0 1 3 "''page''" 1000
        "Error (Some ''Attempted to use detached Frame'')"]
  by (simp add: transientRun_def isDetachedFrame_def str_includes_def backoff_def sublist_Cons_right upt_rec)

section \<open>Raw messages\<close>

text \<open>
  A raw message as the remote client supplies it, with the properties the crawler and the
  enrichment read. Fields carry the prefix \<open>msg_\<close> (\<open>c_\<close> for a sender object, \<open>q_\<close> for a
  quoted message, \<open>rc_\<close> for a reaction group). The timestamp is epoch seconds when it is a
  number; \<open>TsUndefined\<close> stands for a timestamp that is missing.
\<close>

datatype js_timestamp = TsNumber int | TsUndefined

record contact =
  c_id :: "string option"
  c_formattedName :: "string option"
  c_pushname :: "string option"
  c_name :: "string option"

datatype sender = SenderString string | SenderObject contact

record quoted_message =
  q_isMedia :: bool
  q_body :: "string option"
  q_content :: "string option"

record reaction =
  rc_aggregateEmoji :: "string option"
  rc_senders :: "string list"

record raw_message =
  msg_id :: js_value
  msg_timestamp :: js_timestamp
  msg_author :: "string option"
  msg_sender :: "sender option"
  msg_isMedia :: bool
  msg_body :: "string option"
  msg_content :: "string option"
  msg_quotedMsg :: "quoted_message option"
  msg_quotedParticipant :: "string option"
  msg_quotedStanzaID :: "string option"
  msg_reactions :: "reaction list option"

text \<open>A plain text message with the given id, timestamp and body, for the scenarios.\<close>

definition textMessage :: "string \<Rightarrow> js_timestamp \<Rightarrow> string \<Rightarrow> raw_message" where
  "textMessage i t b =
     \<lparr>msg_id = JString i, msg_timestamp = t, msg_author = None, msg_sender = None,
      msg_isMedia = False, msg_body = Some b, msg_content = None, msg_quotedMsg = None,
      msg_quotedParticipant = None, msg_quotedStanzaID = None, msg_reactions = None\<rparr>"

section \<open>crawl-service.js: the pagination loop\<close>

text \<open>
  \<open>loadAllMessages\<close> asks the remote client for the next page of earlier messages until a
  stop condition holds. The remote is the script of the outcomes of
  \<open>client.loadEarlierMessages(chatId)\<close>: a thrown error, or the returned value, \<open>None\<close> for
  \<open>null\<close>/\<open>undefined\<close> and \<open>Some page\<close> for an array. A run yields what the function returns
  (\<open>Inr\<close>) or throws (\<open>Inl\<close>), the number of remote invocations, the \<open>(current, total)\<close>
  pairs handed to the progress callback, and the arrays received from the remote, in
  order.

  Not modelled: the wall-clock readiness wait before the loop (\<open>waitForChatReady\<close>, whose
  result is discarded and whose error is caught and logged), the fixed 500 ms pause after
  each page, and console output. Every remote invocation has an outcome in the script: a
  call that never settles is outside the model.
\<close>

record load_run =
  l_result :: "js_error + raw_message list"
  l_calls :: nat
  l_progress :: "(nat \<times> nat) list"
  l_pages :: "raw_message list list"

text \<open>
  The inner \<open>for (const msg of newMessages)\<close>: a message whose id is not in \<open>seenIds\<close> is
  added to the set, pushed onto \<open>allMessages\<close> and counted.
\<close>

fun mergePage ::
  "raw_message list \<Rightarrow> js_value set \<Rightarrow> raw_message list \<Rightarrow> nat
     \<Rightarrow> raw_message list \<times> js_value set \<times> nat" where
  "mergePage [] seenIds allMessages added = (allMessages, seenIds, added)"
| "mergePage (msg # rest) seenIds allMessages added =
     (if msg_id msg \<notin> seenIds
      then mergePage rest (insert (msg_id msg) seenIds) (allMessages @ [msg]) (Suc added)
      else mergePage rest seenIds allMessages added)"

text \<open>
  The messages of a page that the loop appends: those whose id is neither in the set nor
  carried by an earlier message of the same page.
\<close>

fun unseen :: "raw_message list \<Rightarrow> js_value set \<Rightarrow> raw_message list" where
  "unseen [] seenIds = []"
| "unseen (msg # rest) seenIds =
     (if msg_id msg \<in> seenIds then unseen rest seenIds
      else msg # unseen rest (insert (msg_id msg) seenIds))"

lemma mergePage_unseen:
  "mergePage newMessages seenIds allMessages added =
     (allMessages @ unseen newMessages seenIds, seenIds \<union> msg_id ` set newMessages,
      added + length (unseen newMessages seenIds))"
  by (induction newMessages arbitrary: seenIds allMessages added) auto

text \<open>The page fetch of the loop: the remote call inside the retry envelope, 3 attempts.\<close>

definition fetchPage ::
  "(nat \<Rightarrow> js_error + raw_message list option) \<Rightarrow> nat \<Rightarrow> raw_message list option retry_run"
  where
  "fetchPage remote calls = retryOnDetachedFrame remote 3 1000 calls"

text \<open>
  The \<open>while (allMessages.length < maxCount)\<close> loop. Each \<open>break\<close> and the loop's normal end
  lead to \<open>return allMessages\<close>; the \<open>throw\<close> of the \<open>catch\<close> block leaves the function.
\<close>

function loadLoop ::
  "(nat \<Rightarrow> js_error + raw_message list option) \<Rightarrow> nat \<Rightarrow> raw_message list \<Rightarrow> js_value set
     \<Rightarrow> nat \<Rightarrow> (nat \<times> nat) list \<Rightarrow> raw_message list list \<Rightarrow> load_run" where
  "loadLoop remote maxCount allMessages seenIds calls progress pages =
     (if length allMessages < maxCount then
        (case r_outcome (fetchPage remote calls) of
           Fulfilled (Some newMessages) \<Rightarrow>
             (if newMessages = [] then
                \<lparr>l_result = Inr allMessages, l_calls = r_calls (fetchPage remote calls),
                 l_progress = progress @ [(length allMessages, maxCount)],
                 l_pages = pages @ [newMessages]\<rparr>
              else
                (case mergePage newMessages seenIds allMessages 0 of
                   (allMessages', seenIds', added) \<Rightarrow>
                     if added = 0 then
                       \<lparr>l_result = Inr allMessages', l_calls = r_calls (fetchPage remote calls),
                        l_progress = progress @ [(length allMessages, maxCount)],
                        l_pages = pages @ [newMessages]\<rparr>
                     else
                       loadLoop remote maxCount allMessages' seenIds'
                         (r_calls (fetchPage remote calls))
                         (progress @ [(length allMessages, maxCount)])
                         (pages @ [newMessages])))
         | Fulfilled None \<Rightarrow>
             \<lparr>l_result = Inr allMessages, l_calls = r_calls (fetchPage remote calls),
              l_progress = progress @ [(length allMessages, maxCount)], l_pages = pages\<rparr>
         | FulfilledUndefined \<Rightarrow>
             \<lparr>l_result = Inr allMessages, l_calls = r_calls (fetchPage remote calls),
              l_progress = progress @ [(length allMessages, maxCount)], l_pages = pages\<rparr>
         | RejectedWith error \<Rightarrow>
             (if length allMessages > 0 then
                \<lparr>l_result = Inr allMessages, l_calls = r_calls (fetchPage remote calls),
                 l_progress = progress @ [(length allMessages, maxCount)], l_pages = pages\<rparr>
              else
                \<lparr>l_result = Inl error, l_calls = r_calls (fetchPage remote calls),
                 l_progress = progress @ [(length allMessages, maxCount)], l_pages = pages\<rparr>))
      else
        \<lparr>l_result = Inr allMessages, l_calls = calls, l_progress = progress, l_pages = pages\<rparr>)"
  by pat_completeness auto
termination
  by (relation "measure (\<lambda>(remote, maxCount, allMessages, seenIds, calls, progress, pages).
        maxCount - length allMessages)") (auto simp: mergePage_unseen neq_Nil_conv)

declare loadLoop.simps [simp del]

text \<open>
  The function: an empty array and an empty set, the first progress call
  \<open>progressCallback?.(..., 0, maxCount)\<close>, then the loop.
\<close>

definition loadAllMessages ::
  "(nat \<Rightarrow> js_error + raw_message list option) \<Rightarrow> nat \<Rightarrow> load_run" where
  "loadAllMessages remote maxCount = loadLoop remote maxCount [] {} 0 [(0, maxCount)] []"

text \<open>The size of the last array received from the remote, 0 when none was received.\<close>

definition lastPageSize :: "raw_message list list \<Rightarrow> nat" where
  "lastPageSize pages = (if pages = [] then 0 else length (last pages))"

subsection \<open>One iteration of the loop\<close>

lemma unseen_Nil_iff: "unseen page seenIds = [] \<longleftrightarrow> msg_id ` set page \<subseteq> seenIds"
  by (induction page arbitrary: seenIds) auto

lemma length_unseen: "length (unseen page seenIds) \<le> length page"
  by (induction page arbitrary: seenIds) (auto simp: le_SucI)

lemma loadLoop_full:
  "maxCount \<le> length allMessages \<Longrightarrow>
   loadLoop remote maxCount allMessages seenIds calls progress pages =
     \<lparr>l_result = Inr allMessages, l_calls = calls, l_progress = progress, l_pages = pages\<rparr>"
  by (subst loadLoop.simps) simp

lemma loadLoop_rejected:
  "length allMessages < maxCount \<Longrightarrow>
   r_outcome (fetchPage remote calls) = RejectedWith error \<Longrightarrow>
   loadLoop remote maxCount allMessages seenIds calls progress pages =
     \<lparr>l_result = (if allMessages \<noteq> [] then Inr allMessages else Inl error),
      l_calls = r_calls (fetchPage remote calls),
      l_progress = progress @ [(length allMessages, maxCount)], l_pages = pages\<rparr>"
  by (subst loadLoop.simps) simp

lemma loadLoop_no_page:
  "length allMessages < maxCount \<Longrightarrow>
   r_outcome (fetchPage remote calls) = Fulfilled None
     \<or> r_outcome (fetchPage remote calls) = FulfilledUndefined \<Longrightarrow>
   loadLoop remote maxCount allMessages seenIds calls progress pages =
     \<lparr>l_result = Inr allMessages, l_calls = r_calls (fetchPage remote calls),
      l_progress = progress @ [(length allMessages, maxCount)], l_pages = pages\<rparr>"
  by (subst loadLoop.simps) auto

lemma loadLoop_no_growth:
  "length allMessages < maxCount \<Longrightarrow>
   r_outcome (fetchPage remote calls) = Fulfilled (Some page) \<Longrightarrow>
   msg_id ` set page \<subseteq> seenIds \<Longrightarrow>
   loadLoop remote maxCount allMessages seenIds calls progress pages =
     \<lparr>l_result = Inr allMessages, l_calls = r_calls (fetchPage remote calls),
      l_progress = progress @ [(length allMessages, maxCount)], l_pages = pages @ [page]\<rparr>"
  using unseen_Nil_iff [of page seenIds]
  by (subst loadLoop.simps) (simp add: mergePage_unseen)

lemma loadLoop_growth:
  "length allMessages < maxCount \<Longrightarrow>
   r_outcome (fetchPage remote calls) = Fulfilled (Some page) \<Longrightarrow>
   \<not> msg_id ` set page \<subseteq> seenIds \<Longrightarrow>
   loadLoop remote maxCount allMessages seenIds calls progress pages =
     loadLoop remote maxCount (allMessages @ unseen page seenIds)
       (seenIds \<union> msg_id ` set page) (r_calls (fetchPage remote calls))
       (progress @ [(length allMessages, maxCount)]) (pages @ [page])"
  using unseen_Nil_iff [of page seenIds]
  by (subst loadLoop.simps) (auto simp: mergePage_unseen)

text \<open>Every loop state is in exactly one of five situations.\<close>

lemma loadLoop_step_cases:
  fixes remote :: "nat \<Rightarrow> js_error + raw_message list option"
  obtains (full) "maxCount \<le> length allMessages"
  | (rejected) error where "length allMessages < maxCount"
      "r_outcome (fetchPage remote calls) = RejectedWith error"
  | (no_page) "length allMessages < maxCount"
      "r_outcome (fetchPage remote calls) = Fulfilled None
         \<or> r_outcome (fetchPage remote calls) = FulfilledUndefined"
  | (no_growth) page where "length allMessages < maxCount"
      "r_outcome (fetchPage remote calls) = Fulfilled (Some page)"
      "msg_id ` set page \<subseteq> seenIds"
  | (growth) page where "length allMessages < maxCount"
      "r_outcome (fetchPage remote calls) = Fulfilled (Some page)"
      "\<not> msg_id ` set page \<subseteq> seenIds"
proof (cases "maxCount \<le> length allMessages")
  case True
  then show ?thesis by (rule full)
next
  case False
  then have lt: "length allMessages < maxCount" by simp
  show ?thesis
  proof (cases "r_outcome (fetchPage remote calls)")
    case (Fulfilled p)
    show ?thesis
    proof (cases p)
      case None
      with lt Fulfilled show ?thesis by (intro no_page) auto
    next
      case (Some page)
      with lt Fulfilled show ?thesis
        by (cases "msg_id ` set page \<subseteq> seenIds") (auto intro: no_growth growth)
    qed
  next
    case FulfilledUndefined
    with lt show ?thesis by (intro no_page) auto
  next
    case (RejectedWith error)
    with lt show ?thesis by (intro rejected) auto
  qed
qed

lemma unseen_growth:
  "\<not> msg_id ` set page \<subseteq> seenIds \<Longrightarrow> 0 < length (unseen page seenIds)"
  using unseen_Nil_iff [of page seenIds] by simp

lemma growth_measure:
  assumes "length allMessages < maxCount" and "\<not> msg_id ` set page \<subseteq> seenIds"
  shows "maxCount - length (allMessages @ unseen page seenIds) < maxCount - length allMessages"
proof -
  have "0 < length (unseen page seenIds)"
    using assms(2) by (rule unseen_growth)
  with assms(1) show ?thesis
    unfolding length_append by linarith
qed

subsection \<open>Bounds on a whole run\<close>

lemma retryLoop_calls_upper:
  "r_calls (retryLoop operation maxRetries attempt delay calls slept)
     \<le> calls + (Suc maxRetries - attempt)"
proof (induction operation maxRetries attempt delay calls slept rule: retryLoop.induct)
  case (1 operation maxRetries attempt delay calls slept)
  show ?case
  proof (cases "attempt \<le> maxRetries")
    case False
    then show ?thesis by (subst retryLoop.simps) simp
  next
    case le: True
    show ?thesis
    proof (cases "operation calls")
      case (Inr v)
      with le show ?thesis by (subst retryLoop.simps) simp
    next
      case (Inl e)
      show ?thesis
      proof (cases "isDetachedFrame e \<and> attempt < maxRetries")
        case True
        with le Inl
        have "r_calls (retryLoop operation maxRetries (Suc attempt) (delay * (3 / 2)) (Suc calls)
            (slept @ [delay])) \<le> Suc calls + (Suc maxRetries - Suc attempt)"
          by (intro "1.IH") auto
        with True le Inl show ?thesis by (subst retryLoop.simps) auto
      next
        case False
        with le Inl show ?thesis by (subst retryLoop.simps) auto
      qed
    qed
  qed
qed

lemma fetchPage_calls: "r_calls (fetchPage remote calls) \<le> calls + 3"
  using retryLoop_calls_upper [of remote 3 1 1000 calls "[]"]
  by (simp add: fetchPage_def retryOnDetachedFrame_def)

text \<open>The loop body runs at most \<open>maxCount - allMessages.length\<close> more times.\<close>

lemma loadLoop_iterations:
  "length (l_progress (loadLoop remote maxCount allMessages seenIds calls progress pages))
     \<le> length progress + (maxCount - length allMessages)"
proof (induction "maxCount - length allMessages"
    arbitrary: allMessages seenIds calls progress pages rule: less_induct)
  case less
  show ?case
  proof (cases rule: loadLoop_step_cases [where maxCount = maxCount and allMessages = allMessages
        and remote = remote and calls = calls and seenIds = seenIds])
    case full
    then show ?thesis by (simp add: loadLoop_full)
  next
    case (rejected error)
    then show ?thesis by (simp add: loadLoop_rejected)
  next
    case no_page
    then show ?thesis by (simp add: loadLoop_no_page)
  next
    case (no_growth page)
    then show ?thesis by (simp add: loadLoop_no_growth)
  next
    case (growth page)
    from growth have smaller: "maxCount - length (allMessages @ unseen page seenIds)
        < maxCount - length allMessages"
      by (intro growth_measure)
    from less [OF smaller, of "seenIds \<union> msg_id ` set page" "r_calls (fetchPage remote calls)"
        "progress @ [(length allMessages, maxCount)]" "pages @ [page]"] smaller
    show ?thesis
      unfolding loadLoop_growth [OF growth] by simp
  qed
qed

lemma loadLoop_calls:
  "l_calls (loadLoop remote maxCount allMessages seenIds calls progress pages)
     \<le> calls + 3 * (maxCount - length allMessages)"
proof (induction "maxCount - length allMessages"
    arbitrary: allMessages seenIds calls progress pages rule: less_induct)
  case less
  note fetch = fetchPage_calls [of remote calls]
  show ?case
  proof (cases rule: loadLoop_step_cases [where maxCount = maxCount and allMessages = allMessages
        and remote = remote and calls = calls and seenIds = seenIds])
    case full
    then show ?thesis by (simp add: loadLoop_full)
  next
    case (rejected error)
    with fetch show ?thesis by (simp add: loadLoop_rejected)
  next
    case no_page
    with fetch show ?thesis by (simp add: loadLoop_no_page)
  next
    case (no_growth page)
    with fetch show ?thesis by (simp add: loadLoop_no_growth)
  next
    case (growth page)
    from growth have smaller: "maxCount - length (allMessages @ unseen page seenIds)
        < maxCount - length allMessages"
      by (intro growth_measure)
    from less [OF smaller, of "seenIds \<union> msg_id ` set page" "r_calls (fetchPage remote calls)"
        "progress @ [(length allMessages, maxCount)]" "pages @ [page]"] smaller fetch
    show ?thesis
      unfolding loadLoop_growth [OF growth] by simp
  qed
qed

lemma loadLoop_progress:
  "\<exists>new. l_progress (loadLoop remote maxCount allMessages seenIds calls progress pages)
           = progress @ new
         \<and> (\<forall>e \<in> set new. fst e < maxCount \<and> snd e = maxCount)"
proof (induction "maxCount - length allMessages"
    arbitrary: allMessages seenIds calls progress pages rule: less_induct)
  case less
  show ?case
  proof (cases rule: loadLoop_step_cases [where maxCount = maxCount and allMessages = allMessages
        and remote = remote and calls = calls and seenIds = seenIds])
    case full
    then show ?thesis by (simp add: loadLoop_full)
  next
    case (rejected error)
    then show ?thesis by (simp add: loadLoop_rejected)
  next
    case no_page
    then show ?thesis by (simp add: loadLoop_no_page)
  next
    case (no_growth page)
    then show ?thesis by (simp add: loadLoop_no_growth)
  next
    case (growth page)
    from growth have smaller: "maxCount - length (allMessages @ unseen page seenIds)
        < maxCount - length allMessages"
      by (intro growth_measure)
    from less [OF smaller, of "seenIds \<union> msg_id ` set page" "r_calls (fetchPage remote calls)"
        "progress @ [(length allMessages, maxCount)]" "pages @ [page]"]
    obtain new where new: "l_progress (loadLoop remote maxCount (allMessages @ unseen page seenIds)
          (seenIds \<union> msg_id ` set page) (r_calls (fetchPage remote calls))
          (progress @ [(length allMessages, maxCount)]) (pages @ [page]))
        = (progress @ [(length allMessages, maxCount)]) @ new"
      and small: "\<forall>e \<in> set new. fst e < maxCount \<and> snd e = maxCount"
      by blast
    have "l_progress (loadLoop remote maxCount allMessages seenIds calls progress pages)
        = progress @ ((length allMessages, maxCount) # new)"
      unfolding loadLoop_growth [OF growth] new by simp
    moreover have "\<forall>e \<in> set ((length allMessages, maxCount) # new).
        fst e < maxCount \<and> snd e = maxCount"
      using small growth(1) by simp
    ultimately show ?thesis by blast
  qed
qed

lemma loadLoop_bound:
  "length allMessages < maxCount + lastPageSize pages \<Longrightarrow>
   l_result (loadLoop remote maxCount allMessages seenIds calls progress pages) = Inr r \<Longrightarrow>
   length r < maxCount
     + lastPageSize (l_pages (loadLoop remote maxCount allMessages seenIds calls progress pages))"
proof (induction "maxCount - length allMessages"
    arbitrary: allMessages seenIds calls progress pages rule: less_induct)
  case less
  show ?case
  proof (cases rule: loadLoop_step_cases [where maxCount = maxCount and allMessages = allMessages
        and remote = remote and calls = calls and seenIds = seenIds])
    case full
    with less.prems show ?thesis by (simp add: loadLoop_full)
  next
    case (rejected error)
    with less.prems show ?thesis by (auto simp: loadLoop_rejected split: if_splits)
  next
    case no_page
    with less.prems show ?thesis by (simp add: loadLoop_no_page)
  next
    case (no_growth page)
    with less.prems show ?thesis by (simp add: loadLoop_no_growth lastPageSize_def)
  next
    case (growth page)
    from growth have smaller: "maxCount - length (allMessages @ unseen page seenIds)
        < maxCount - length allMessages"
      by (intro growth_measure)
    have fits: "length (allMessages @ unseen page seenIds)
        < maxCount + lastPageSize (pages @ [page])"
      using growth(1) length_unseen [of page seenIds] by (simp add: lastPageSize_def)
    from less.prems(2) have "l_result (loadLoop remote maxCount (allMessages @ unseen page seenIds)
        (seenIds \<union> msg_id ` set page) (r_calls (fetchPage remote calls))
        (progress @ [(length allMessages, maxCount)]) (pages @ [page])) = Inr r"
      unfolding loadLoop_growth [OF growth] .
    from less.hyps [OF smaller fits this] show ?thesis
      unfolding loadLoop_growth [OF growth] .
  qed
qed

lemma fetchPage_success:
  "remote calls = Inr v \<Longrightarrow>
   fetchPage remote calls = \<lparr>r_outcome = Fulfilled v, r_calls = Suc calls, r_slept = []\<rparr>"
  unfolding fetchPage_def retryOnDetachedFrame_def by (subst retryLoop.simps) simp

lemma fetchPage_calls_lower: "Suc calls \<le> r_calls (fetchPage remote calls)"
  using retryLoop_calls [of 1 3 calls remote 1000 "[]"]
  by (simp add: fetchPage_def retryOnDetachedFrame_def)

text \<open>
  A page that is returned twice in a row ends the loop at its second occurrence at the
  latest, with a normal return.
\<close>

lemma loadLoop_repeat:
  assumes first: "r_outcome (fetchPage remote calls) = Fulfilled (Some page)"
    and second: "r_outcome (fetchPage remote (r_calls (fetchPage remote calls)))
      = Fulfilled (Some page)"
  shows "l_result (loadLoop remote maxCount allMessages seenIds calls progress pages)
      = Inr (if length allMessages < maxCount then allMessages @ unseen page seenIds
             else allMessages)
    \<and> l_calls (loadLoop remote maxCount allMessages seenIds calls progress pages)
      \<le> r_calls (fetchPage remote (r_calls (fetchPage remote calls)))
    \<and> length (l_progress (loadLoop remote maxCount allMessages seenIds calls progress pages))
      \<le> length progress + 2"
proof -
  note up1 = fetchPage_calls_lower [of calls remote]
  note up2 = fetchPage_calls_lower [of "r_calls (fetchPage remote calls)" remote]
  show ?thesis
  proof (cases rule: loadLoop_step_cases [where maxCount = maxCount and allMessages = allMessages
        and remote = remote and calls = calls and seenIds = seenIds])
    case full
    with up1 up2 show ?thesis by (simp add: loadLoop_full)
  next
    case (rejected error)
    with first show ?thesis by simp
  next
    case no_page
    with first show ?thesis by simp
  next
    case (no_growth p)
    with first have p: "p = page" by simp
    from no_growth up2 show ?thesis
      using unseen_Nil_iff [of page seenIds] by (simp add: loadLoop_no_growth p)
  next
    case (growth p)
    with first have p: "p = page" by simp
    note step = loadLoop_growth [OF growth [unfolded p]]
    show ?thesis
    proof (cases "maxCount \<le> length (allMessages @ unseen page seenIds)")
      case True
      with growth(1) up2 show ?thesis
        unfolding step by (simp add: loadLoop_full)
    next
      case False
      then have lt: "length (allMessages @ unseen page seenIds) < maxCount" by simp
      have seen: "msg_id ` set page \<subseteq> seenIds \<union> msg_id ` set page" by simp
      from growth(1) show ?thesis
        unfolding step loadLoop_no_growth [OF lt second seen] by simp
    qed
  qed
qed

subsection \<open>Claim C4\<close>

text \<open>
  C4: the loop terminates, for every remote: the model is a total function, its body runs
  at most \<open>maxCount\<close> times (one progress call per iteration, after the initial one) and
  the remote is invoked at most \<open>3 * maxCount\<close> times. It stops with a normal return when
  the accumulated count has reached the cap (without a further fetch), when the fetched
  page is empty or absent, and when the fetched page carries no id outside the dedup set;
  on any other page it goes on, with the page's unseen messages appended. If a fetch
  returns the same page as the fetch before it, the loop returns normally at that second
  fetch at the latest; in particular (Scenario C) a remote whose first two pages are the
  same page ends the crawl after at most two fetches, returning that page's messages.
\<close>

theorem loadAllMessages_terminates:
  "length (l_progress (loadAllMessages remote maxCount)) \<le> Suc maxCount
   \<and> l_calls (loadAllMessages remote maxCount) \<le> 3 * maxCount
   \<and> (maxCount \<le> length allMessages \<longrightarrow>
        loadLoop remote maxCount allMessages seenIds calls progress pages =
          \<lparr>l_result = Inr allMessages, l_calls = calls, l_progress = progress,
           l_pages = pages\<rparr>)
   \<and> (length allMessages < maxCount
        \<and> (r_outcome (fetchPage remote calls) = Fulfilled None
            \<or> r_outcome (fetchPage remote calls) = FulfilledUndefined
            \<or> r_outcome (fetchPage remote calls) = Fulfilled (Some [])) \<longrightarrow>
        l_result (loadLoop remote maxCount allMessages seenIds calls progress pages)
          = Inr allMessages
        \<and> l_calls (loadLoop remote maxCount allMessages seenIds calls progress pages)
          = r_calls (fetchPage remote calls))
   \<and> (length allMessages < maxCount
        \<and> r_outcome (fetchPage remote calls) = Fulfilled (Some page)
        \<and> msg_id ` set page \<subseteq> seenIds \<longrightarrow>
        l_result (loadLoop remote maxCount allMessages seenIds calls progress pages)
          = Inr allMessages
        \<and> l_calls (loadLoop remote maxCount allMessages seenIds calls progress pages)
          = r_calls (fetchPage remote calls))
   \<and> (length allMessages < maxCount
        \<and> r_outcome (fetchPage remote calls) = Fulfilled (Some page)
        \<and> \<not> msg_id ` set page \<subseteq> seenIds \<longrightarrow>
        loadLoop remote maxCount allMessages seenIds calls progress pages =
          loadLoop remote maxCount (allMessages @ unseen page seenIds)
            (seenIds \<union> msg_id ` set page) (r_calls (fetchPage remote calls))
            (progress @ [(length allMessages, maxCount)]) (pages @ [page]))
   \<and> (r_outcome (fetchPage remote calls) = Fulfilled (Some page)
        \<and> r_outcome (fetchPage remote (r_calls (fetchPage remote calls)))
            = Fulfilled (Some page) \<longrightarrow>
        (\<exists>msgs. l_result (loadLoop remote maxCount allMessages seenIds calls progress pages)
           = Inr msgs)
        \<and> l_calls (loadLoop remote maxCount allMessages seenIds calls progress pages)
            \<le> r_calls (fetchPage remote (r_calls (fetchPage remote calls)))
        \<and> length (l_progress (loadLoop remote maxCount allMessages seenIds calls progress pages))
            \<le> length progress + 2)
   \<and> (remote 0 = Inr (Some page) \<and> remote 1 = Inr (Some page) \<and> 0 < maxCount \<longrightarrow>
        l_result (loadAllMessages remote maxCount) = Inr (unseen page {})
        \<and> l_calls (loadAllMessages remote maxCount) \<le> 2
        \<and> length (l_progress (loadAllMessages remote maxCount)) \<le> 3)"
proof -
  have iterations: "length (l_progress (loadAllMessages remote maxCount)) \<le> Suc maxCount"
    using loadLoop_iterations [of remote maxCount "[]" "{}" 0 "[(0, maxCount)]" "[]"]
    by (simp add: loadAllMessages_def)
  have invocations: "l_calls (loadAllMessages remote maxCount) \<le> 3 * maxCount"
    using loadLoop_calls [of remote maxCount "[]" "{}" 0 "[(0, maxCount)]" "[]"]
    by (simp add: loadAllMessages_def)
  have cap: "maxCount \<le> length allMessages \<longrightarrow>
      loadLoop remote maxCount allMessages seenIds calls progress pages =
        \<lparr>l_result = Inr allMessages, l_calls = calls, l_progress = progress, l_pages = pages\<rparr>"
    by (simp add: loadLoop_full)
  have empty: "length allMessages < maxCount
      \<and> (r_outcome (fetchPage remote calls) = Fulfilled None
          \<or> r_outcome (fetchPage remote calls) = FulfilledUndefined
          \<or> r_outcome (fetchPage remote calls) = Fulfilled (Some [])) \<longrightarrow>
      l_result (loadLoop remote maxCount allMessages seenIds calls progress pages)
        = Inr allMessages
      \<and> l_calls (loadLoop remote maxCount allMessages seenIds calls progress pages)
        = r_calls (fetchPage remote calls)"
    using loadLoop_no_page [of allMessages maxCount remote calls seenIds progress pages]
      loadLoop_no_growth [of allMessages maxCount remote calls "[]" seenIds progress pages]
    by auto
  have converged: "length allMessages < maxCount
      \<and> r_outcome (fetchPage remote calls) = Fulfilled (Some page)
      \<and> msg_id ` set page \<subseteq> seenIds \<longrightarrow>
      l_result (loadLoop remote maxCount allMessages seenIds calls progress pages)
        = Inr allMessages
      \<and> l_calls (loadLoop remote maxCount allMessages seenIds calls progress pages)
        = r_calls (fetchPage remote calls)"
    by (simp add: loadLoop_no_growth)
  have goes_on: "length allMessages < maxCount
      \<and> r_outcome (fetchPage remote calls) = Fulfilled (Some page)
      \<and> \<not> msg_id ` set page \<subseteq> seenIds \<longrightarrow>
      loadLoop remote maxCount allMessages seenIds calls progress pages =
        loadLoop remote maxCount (allMessages @ unseen page seenIds)
          (seenIds \<union> msg_id ` set page) (r_calls (fetchPage remote calls))
          (progress @ [(length allMessages, maxCount)]) (pages @ [page])"
    using loadLoop_growth [of allMessages maxCount remote calls page seenIds progress pages]
    by blast
  have repeated: "r_outcome (fetchPage remote calls) = Fulfilled (Some page)
      \<and> r_outcome (fetchPage remote (r_calls (fetchPage remote calls)))
          = Fulfilled (Some page) \<longrightarrow>
      (\<exists>msgs. l_result (loadLoop remote maxCount allMessages seenIds calls progress pages)
         = Inr msgs)
      \<and> l_calls (loadLoop remote maxCount allMessages seenIds calls progress pages)
          \<le> r_calls (fetchPage remote (r_calls (fetchPage remote calls)))
      \<and> length (l_progress (loadLoop remote maxCount allMessages seenIds calls progress pages))
          \<le> length progress + 2"
    using loadLoop_repeat [of remote calls page maxCount allMessages seenIds progress pages]
    by blast
  have scenario: "remote 0 = Inr (Some page) \<and> remote 1 = Inr (Some page) \<and> 0 < maxCount \<longrightarrow>
      l_result (loadAllMessages remote maxCount) = Inr (unseen page {})
      \<and> l_calls (loadAllMessages remote maxCount) \<le> 2
      \<and> length (l_progress (loadAllMessages remote maxCount)) \<le> 3"
  proof (intro impI, elim conjE)
    assume p0: "remote 0 = Inr (Some page)" and p1: "remote 1 = Inr (Some page)"
      and pos: "0 < maxCount"
    have f0: "fetchPage remote 0 = \<lparr>r_outcome = Fulfilled (Some page), r_calls = 1, r_slept = []\<rparr>"
      using fetchPage_success [of remote 0 "Some page"] p0 by simp
    have f1: "fetchPage remote (Suc 0)
        = \<lparr>r_outcome = Fulfilled (Some page), r_calls = 2, r_slept = []\<rparr>"
      using fetchPage_success [of remote "Suc 0" "Some page"] p1 by simp
    from loadLoop_repeat [of remote 0 page maxCount "[]" "{}" "[(0, maxCount)]" "[]"] pos
    show "l_result (loadAllMessages remote maxCount) = Inr (unseen page {})
      \<and> l_calls (loadAllMessages remote maxCount) \<le> 2
      \<and> length (l_progress (loadAllMessages remote maxCount)) \<le> 3"
      by (simp add: loadAllMessages_def f0 f1)
  qed
  from iterations invocations cap empty converged goes_on repeated scenario
  show ?thesis by simp
qed

text \<open>Scenario C: the remote returns the same two-message page every time.\<close>

theorem loadAllMessages_terminates_witness:
  "(0::nat) < 5000
   \<and> l_result (loadAllMessages
        (\<lambda>n. Inr (Some [textMessage ''A1'' (TsNumber 10) ''hi'',
                         textMessage ''A2'' (TsNumber 20) ''there''])) 5000)
      = Inr [textMessage ''A1'' (TsNumber 10) ''hi'', textMessage ''A2'' (TsNumber 20) ''there'']
   \<and> l_calls (loadAllMessages
        (\<lambda>n. Inr (Some [textMessage ''A1'' (TsNumber 10) ''hi'',
                         textMessage ''A2'' (TsNumber 20) ''there''])) 5000) \<le> 2"
  using loadAllMessages_terminates
    [of "\<lambda>n. Inr (Some [textMessage ''A1'' (TsNumber 10) ''hi'',
                          textMessage ''A2'' (TsNumber 20) ''there''])" 5000
        "[]" "{}" 0 "[]" "[]"
        "[textMessage ''A1'' (TsNumber 10) ''hi'', textMessage ''A2'' (TsNumber 20) ''there'']"]
  by (simp add: textMessage_def)

subsection \<open>Claim C5\<close>



subsection \<open>Claim C10\<close>

text \<open>
  C10: the cap is not a hard truncation. At every fetch the accumulated count handed to
  the progress callback is below \<open>maxCount\<close>; a page's unseen messages are appended whole,
  and when that takes the count to the cap or beyond, exactly that list is returned; so
  the returned list has at most \<open>maxCount - 1\<close> messages plus the size of the last page
  received, and it can be longer than \<open>maxCount\<close>. (For \<open>maxCount = 0\<close> nothing is fetched
  and the empty list is returned.)
\<close>

theorem loadAllMessages_cap_not_truncating:
  "(\<forall>e \<in> set (tl (l_progress (loadAllMessages remote maxCount))).
       fst e < maxCount \<and> snd e = maxCount)
   \<and> (0 < maxCount \<and> l_result (loadAllMessages remote maxCount) = Inr r \<longrightarrow>
        length r \<le> maxCount - 1 + lastPageSize (l_pages (loadAllMessages remote maxCount)))
   \<and> (maxCount = 0 \<longrightarrow>
        l_result (loadAllMessages remote maxCount) = Inr []
        \<and> l_calls (loadAllMessages remote maxCount) = 0)
   \<and> (length allMessages < maxCount
        \<and> r_outcome (fetchPage remote calls) = Fulfilled (Some page)
        \<and> maxCount \<le> length (allMessages @ unseen page seenIds) \<longrightarrow>
        l_result (loadLoop remote maxCount allMessages seenIds calls progress pages)
          = Inr (allMessages @ unseen page seenIds))
   \<and> (\<exists>remote' maxCount' r'.
        l_result (loadAllMessages remote' maxCount') = Inr r' \<and> maxCount' < length r')"
proof -
  have events: "\<forall>e \<in> set (tl (l_progress (loadAllMessages remote maxCount))).
      fst e < maxCount \<and> snd e = maxCount"
    using loadLoop_progress [of remote maxCount "[]" "{}" 0 "[(0, maxCount)]" "[]"]
    by (auto simp: loadAllMessages_def)
  have bound: "0 < maxCount \<and> l_result (loadAllMessages remote maxCount) = Inr r \<longrightarrow>
      length r \<le> maxCount - 1 + lastPageSize (l_pages (loadAllMessages remote maxCount))"
    using loadLoop_bound [of "[]" maxCount "[]" remote "{}" 0 "[(0, maxCount)]" r]
    by (auto simp: loadAllMessages_def lastPageSize_def)
  have zero: "maxCount = 0 \<longrightarrow>
      l_result (loadAllMessages remote maxCount) = Inr []
      \<and> l_calls (loadAllMessages remote maxCount) = 0"
    by (simp add: loadAllMessages_def loadLoop_full)
  have whole: "length allMessages < maxCount
      \<and> r_outcome (fetchPage remote calls) = Fulfilled (Some page)
      \<and> maxCount \<le> length (allMessages @ unseen page seenIds) \<longrightarrow>
      l_result (loadLoop remote maxCount allMessages seenIds calls progress pages)
        = Inr (allMessages @ unseen page seenIds)"
  proof (intro impI, elim conjE)
    assume lt: "length allMessages < maxCount"
      and got: "r_outcome (fetchPage remote calls) = Fulfilled (Some page)"
      and over: "maxCount \<le> length (allMessages @ unseen page seenIds)"
    from lt over have "unseen page seenIds \<noteq> []" by auto
    then have new: "\<not> msg_id ` set page \<subseteq> seenIds"
      by (simp add: unseen_Nil_iff)
    show "l_result (loadLoop remote maxCount allMessages seenIds calls progress pages)
        = Inr (allMessages @ unseen page seenIds)"
      unfolding loadLoop_growth [OF lt got new] using over by (simp add: loadLoop_full)
  qed
  have exceeds: "\<exists>remote' maxCount' r'.
      l_result (loadAllMessages remote' maxCount') = Inr r' \<and> maxCount' < length r'"
  proof -
    let ?page = "[textMessage ''A1'' (TsNumber 10) ''a'', textMessage ''A2'' (TsNumber 20) ''b'',
      textMessage ''A3'' (TsNumber 30) ''c'']"
    let ?remote = "\<lambda>n::nat. Inr (Some ?page) :: js_error + raw_message list option"
    have got: "r_outcome (fetchPage ?remote 0) = Fulfilled (Some ?page)"
      by (simp add: fetchPage_success)
    have new: "\<not> msg_id ` set ?page \<subseteq> {}"
      by simp
    have "l_result (loadAllMessages ?remote 2) = Inr ?page"
      unfolding loadAllMessages_def
      using loadLoop_growth [of "[]" 2 ?remote 0 ?page "{}", OF _ got new]
      by (simp add: textMessage_def loadLoop_full)
    moreover have "(2::nat) < length ?page" by simp
    ultimately show ?thesis by blast
  qed
  from events bound zero whole exceeds show ?thesis by simp
qed

text \<open>A cap of 2 and a first page of three unseen messages: all three are returned.\<close>

theorem loadAllMessages_cap_not_truncating_witness:
  "(0::nat) < 2
   \<and> l_result (loadAllMessages
        (\<lambda>n. Inr (Some [textMessage ''A1'' (TsNumber 10) ''a'', textMessage ''A2'' (TsNumber 20) ''b'',
                         textMessage ''A3'' (TsNumber 30) ''c''])) 2)
      = Inr [textMessage ''A1'' (TsNumber 10) ''a'', textMessage ''A2'' (TsNumber 20) ''b'',
             textMessage ''A3'' (TsNumber 30) ''c'']
   \<and> l_progress (loadAllMessages
        (\<lambda>n. Inr (Some [textMessage ''A1'' (TsNumber 10) ''a'', textMessage ''A2'' (TsNumber 20) ''b'',
                         textMessage ''A3'' (TsNumber 30) ''c''])) 2)
      = [(0, 2), (0, 2)]
   \<and> (2::nat) < length [textMessage ''A1'' (TsNumber 10) ''a'', textMessage ''A2'' (TsNumber 20) ''b'',
             textMessage ''A3'' (TsNumber 30) ''c'']
   \<and> length [textMessage ''A1'' (TsNumber 10) ''a'', textMessage ''A2'' (TsNumber 20) ''b'',
             textMessage ''A3'' (TsNumber 30) ''c'']
      \<le> 2 - 1 + lastPageSize (l_pages (loadAllMessages
        (\<lambda>n. Inr (Some [textMessage ''A1'' (TsNumber 10) ''a'', textMessage ''A2'' (TsNumber 20) ''b'',
                         textMessage ''A3'' (TsNumber 30) ''c''])) 2))"
proof -
  let ?page = "[textMessage ''A1'' (TsNumber 10) ''a'', textMessage ''A2'' (TsNumber 20) ''b'',
    textMessage ''A3'' (TsNumber 30) ''c'']"
  let ?remote = "\<lambda>n::nat. Inr (Some ?page) :: js_error + raw_message list option"
  have got: "r_outcome (fetchPage ?remote 0) = Fulfilled (Some ?page)"
    by (simp add: fetchPage_success)
  have new: "\<not> msg_id ` set ?page \<subseteq> {}"
    by simp
  have run: "loadAllMessages ?remote 2 =
      \<lparr>l_result = Inr ?page, l_calls = 1, l_progress = [(0, 2), (0, 2)], l_pages = [?page]\<rparr>"
    unfolding loadAllMessages_def
    using loadLoop_growth [of "[]" 2 ?remote 0 ?page "{}" "[(0, 2)]" "[]", OF _ got new]
    by (simp add: textMessage_def loadLoop_full fetchPage_success)
  from loadAllMessages_cap_not_truncating [of ?remote 2 ?page "[]" 0 ?page "{}" "[(0, 2)]" "[]"]
  show ?thesis
    unfolding run by (simp add: lastPageSize_def textMessage_def)
qed

section \<open>crawl-service.js: the multi-group run\<close>

text \<open>
  A group as \<open>runCrawler\<close> reads it (\<open>id\<close> and \<open>name\<close>; the other display fields of a
  formatted group are not read), the object \<open>processGroup\<close> returns, and an element of
  \<open>results\<close>: either such an object or the entry \<open>{groupName, error, success: false}\<close> that
  the \<open>catch\<close> block pushes, with \<open>error\<close> the thrown error's \<open>message\<close>.
\<close>

record group =
  g_id :: string
  g_name :: string

record group_result =
  gr_groupName :: string
  gr_messageCount :: nat
  gr_participantCount :: nat
  gr_exportPath :: string


text \<open>
  The summary object \<open>{totalGroups, successful, failed, results}\<close>, its fields prefixed
  with \<open>s_\<close>.
\<close>






text \<open>
  To state what a run does: the outcomes of \<open>processGroup\<close> on the groups in order, the world
  after them, and the entry (if any) that an outcome contributes to \<open>results\<close>.
\<close>

fun outcomes ::
  "(group \<Rightarrow> 'w \<Rightarrow> (js_error + group_result option) \<times> 'w) \<Rightarrow> group list \<Rightarrow> 'w
     \<Rightarrow> (js_error + group_result option) list" where
  "outcomes processGroup [] w = []"
| "outcomes processGroup (grp # rest) w =
     fst (processGroup grp w) # outcomes processGroup rest (snd (processGroup grp w))"



text \<open>An outcome that the summary counts as successful: it leaves an entry without error text.\<close>

fun countedSuccessful :: "js_error + group_result option \<Rightarrow> bool" where
  "countedSuccessful (Inl error) = (\<not> truthy (message error))"
| "countedSuccessful (Inr (Some result)) = True"
| "countedSuccessful (Inr None) = False"

lemma length_outcomes [simp]: "length (outcomes processGroup groups w) = length groups"
  by (induction groups arbitrary: w) auto




subsection \<open>Claim C6\<close>



text \<open>
  Two consequences of counting by error text: a thrown error without message text leaves
  an entry that is counted as successful, and a group for which \<open>processGroup\<close> returns
  \<open>null\<close> (it has no messages) leaves no entry and is counted in \<open>failed\<close>.
\<close>

lemma countedSuccessful_edge_cases:
  "countedSuccessful (Inl (Error None)) \<and> countedSuccessful (Inl (Error (Some '''')))
   \<and> \<not> countedSuccessful (Inr None)"
  by simp

section \<open>common.js: identifier helpers\<close>

text \<open>
  \<open>isLid\<close>, \<open>isPhoneNumber\<close> and \<open>normalizePhoneNumber\<close> on strings (their callers below pass
  strings only). The phone expression is
  \<open>/(\+?972[-\s]?\d{2}[-\s]?\d{3}[-\s]?\d{4})|(972\d{9})/\<close>, tested without anchors: some
  position of the text starts a match. The optional \<open>+\<close> cannot change whether a match
  exists. An optional separator is skipped when present: what follows it must be a digit,
  which a separator is not, so the matcher never needs to go back on that choice.
  \<open>whiteSpaces\<close> lists the UTF-8 encodings of the characters \<open>\s\<close> matches.
\<close>

definition isLid :: "string \<Rightarrow> bool" where
  "isLid input = str_includes input ''@lid''"

definition isDigit :: "char \<Rightarrow> bool" where
  "isDigit c = (c \<in> set ''0123456789'')"

text \<open>\<open>\d{n}\<close>: the rest of the text after \<open>n\<close> digits, if it begins with \<open>n\<close> digits.\<close>

definition takeDigits :: "nat \<Rightarrow> string \<Rightarrow> string option" where
  "takeDigits n s =
     (if n \<le> length s \<and> list_all isDigit (take n s) then Some (drop n s) else None)"

definition whiteSpaces :: "string list" where
  "whiteSpaces =
     [[CHR 0x09], [CHR 0x0A], [CHR 0x0B], [CHR 0x0C], [CHR 0x0D], [CHR 0x20],
      [CHR 0xC2, CHR 0xA0], [CHR 0xE1, CHR 0x9A, CHR 0x80],
      [CHR 0xE2, CHR 0x80, CHR 0x80], [CHR 0xE2, CHR 0x80, CHR 0x81],
      [CHR 0xE2, CHR 0x80, CHR 0x82], [CHR 0xE2, CHR 0x80, CHR 0x83],
      [CHR 0xE2, CHR 0x80, CHR 0x84], [CHR 0xE2, CHR 0x80, CHR 0x85],
      [CHR 0xE2, CHR 0x80, CHR 0x86], [CHR 0xE2, CHR 0x80, CHR 0x87],
      [CHR 0xE2, CHR 0x80, CHR 0x88], [CHR 0xE2, CHR 0x80, CHR 0x89],
      [CHR 0xE2, CHR 0x80, CHR 0x8A], [CHR 0xE2, CHR 0x80, CHR 0xA8],
      [CHR 0xE2, CHR 0x80, CHR 0xA9], [CHR 0xE2, CHR 0x80, CHR 0xAF],
      [CHR 0xE2, CHR 0x81, CHR 0x9F], [CHR 0xE3, CHR 0x80, CHR 0x80],
      [CHR 0xEF, CHR 0xBB, CHR 0xBF]]"

definition skipSeparator :: "string \<Rightarrow> string" where
  "skipSeparator s =
     (case find (\<lambda>w. prefix w s) (''-'' # whiteSpaces) of
        Some w \<Rightarrow> drop (length w) s
      | None \<Rightarrow> s)"

definition phoneAt :: "string \<Rightarrow> bool" where
  "phoneAt s =
     (prefix ''972'' s \<and>
      ((case takeDigits 2 (skipSeparator (drop 3 s)) of
          None \<Rightarrow> False
        | Some r1 \<Rightarrow>
            (case takeDigits 3 (skipSeparator r1) of
               None \<Rightarrow> False
             | Some r2 \<Rightarrow> takeDigits 4 (skipSeparator r2) \<noteq> None))
       \<or> takeDigits 9 (drop 3 s) \<noteq> None))"

fun isPhoneNumber :: "string \<Rightarrow> bool" where
  "isPhoneNumber [] = False"
| "isPhoneNumber (c # cs) = (phoneAt (c # cs) \<or> isPhoneNumber cs)"

definition normalizePhoneNumber :: "string \<Rightarrow> string" where
  "normalizePhoneNumber input =
     (let normalized = filter isDigit input
      in if prefix ''972'' normalized then normalized else input)"

section \<open>messageUtils.js: sender candidates\<close>

text \<open>
  \<open>getPhoneNumber\<close> and \<open>getLid\<close> build the same candidate list: the author when it is a
  string, then the sender when it is a non-empty string, or the truthy ones among the
  sender object's \<open>id\<close>, \<open>formattedName\<close>, \<open>pushname\<close>, \<open>name\<close>. Each returns the first
  candidate of its shape, or \<open>null\<close> (\<open>None\<close>).
\<close>

definition candidates :: "raw_message \<Rightarrow> string list" where
  "candidates msg =
     (case msg_author msg of Some a \<Rightarrow> [a] | None \<Rightarrow> [])
     @ (case msg_sender msg of
          None \<Rightarrow> []
        | Some (SenderString s) \<Rightarrow> (if s \<noteq> [] then [s] else [])
        | Some (SenderObject c) \<Rightarrow>
            map the (filter truthy [c_id c, c_formattedName c, c_pushname c, c_name c]))"

definition getPhoneNumber :: "raw_message \<Rightarrow> string option" where
  "getPhoneNumber msg = map_option normalizePhoneNumber (find isPhoneNumber (candidates msg))"

definition getLid :: "raw_message \<Rightarrow> string option" where
  "getLid msg = find isLid (candidates msg)"

section \<open>enrichment.js\<close>

text \<open>
  A roster member as \<open>filterParticipants\<close> projects it (prefix \<open>mb_\<close>), and the parts of an
  enriched message: the resolved sender (a member or the literal \<open>"Unknown Member"\<close>), the
  reply reference (prefix \<open>rt_\<close>; its author is a member or the raw token), the reaction
  summaries (prefix \<open>rs_\<close>), the intermediate record of \<open>enrichSingleMessage\<close> (prefix \<open>e_\<close>)
  and the final record of \<open>addFinalMetadata\<close> (prefix \<open>f_\<close>).

  \<open>datetime\<close> is the text \<open>new Date(timestamp * 1000).toISOString()\<close>. The text is fixed by
  the instant it renders; the model keeps that instant, in milliseconds.
\<close>

record member =
  mb_id :: string
  mb_name :: "string option"
  mb_shortName :: "string option"
  mb_pushname :: "string option"
  mb_phone :: "string option"

datatype sender_ref = Member member | UnknownMember

datatype author_ref = AuthorMember member | AuthorRaw string

record reply_to =
  rt_ref :: string
  rt_author :: author_ref
  rt_body :: string

record reaction_summary =
  rs_emoji :: "string option"
  rs_count :: nat
  rs_reactedBy :: "string list"

record enriched =
  e_id :: js_value
  e_sender :: sender_ref
  e_timestamp :: js_timestamp
  e_body :: string
  e_replyTo :: "reply_to option"
  e_reactions :: "reaction_summary list option"

datatype iso_datetime = ISODateTime int

record final_message =
  f_serialNumber :: nat
  f_datetime :: iso_datetime
  f_messageId :: js_value
  f_sender :: sender_ref
  f_body :: string
  f_replyTo :: "reply_to option"
  f_reactions :: "reaction_summary list option"

definition resolveSender :: "raw_message \<Rightarrow> member list \<Rightarrow> sender_ref" where
  "resolveSender msg members =
     (let phone = getPhoneNumber msg in
      if truthy phone then
        (case find (\<lambda>p. mb_phone p = phone) members of
           Some p \<Rightarrow> Member p | None \<Rightarrow> UnknownMember)
      else
        (let lid = getLid msg in
         if truthy lid then
           (case find (\<lambda>p. Some (mb_id p) = lid) members of
              Some p \<Rightarrow> Member p | None \<Rightarrow> UnknownMember)
         else UnknownMember))"

text \<open>
  \<open>extractMessageBody\<close> is applied to a message and to a quoted message; it reads \<open>isMedia\<close>,
  \<open>body\<close> and \<open>content\<close>.
\<close>

definition extractMessageBody :: "bool \<Rightarrow> string option \<Rightarrow> string option \<Rightarrow> string" where
  "extractMessageBody isMedia body content =
     (if isMedia then ''<Media Message (Truncated)>''
      else case js_or (js_or body content) (Some ''[No text]'') of
             Some text \<Rightarrow> text | None \<Rightarrow> ''[No text]'')"

definition buildReplyTo :: "raw_message \<Rightarrow> member list \<Rightarrow> reply_to option" where
  "buildReplyTo msg members =
     (case msg_quotedMsg msg of
        None \<Rightarrow> None
      | Some quotedMsg \<Rightarrow>
          (case msg_quotedParticipant msg of
             None \<Rightarrow> None
           | Some quoted \<Rightarrow>
               if quoted = [] then None
               else Some
                 \<lparr>rt_ref = (case js_or (msg_quotedStanzaID msg) (Some ''unresolved reference'') of
                              Some r \<Rightarrow> r | None \<Rightarrow> ''unresolved reference''),
                  rt_author =
                    (if isPhoneNumber quoted then
                       (case find (\<lambda>p. mb_phone p = Some (normalizePhoneNumber quoted)) members of
                          Some p \<Rightarrow> AuthorMember p | None \<Rightarrow> AuthorRaw quoted)
                     else if isLid quoted then
                       (case find (\<lambda>p. mb_id p = quoted) members of
                          Some p \<Rightarrow> AuthorMember p | None \<Rightarrow> AuthorRaw quoted)
                     else AuthorRaw quoted),
                  rt_body = extractMessageBody (q_isMedia quotedMsg) (q_body quotedMsg)
                              (q_content quotedMsg)\<rparr>))"

definition formatReactionsForMessage :: "raw_message \<Rightarrow> reaction_summary list option" where
  "formatReactionsForMessage msg =
     (case msg_reactions msg of
        None \<Rightarrow> None
      | Some reactions \<Rightarrow>
          if reactions = [] then None
          else Some (map (\<lambda>reaction.
                 \<lparr>rs_emoji = rc_aggregateEmoji reaction,
                  rs_count = length (rc_senders reaction),
                  rs_reactedBy = map replaceAtSuffix (rc_senders reaction)\<rparr>) reactions))"

text \<open>\<open>index\<close> is used for a log line only.\<close>

definition enrichSingleMessage :: "raw_message \<Rightarrow> nat \<Rightarrow> member list \<Rightarrow> enriched" where
  "enrichSingleMessage msg index members =
     (let parsedId = parseMessageId (msg_id msg) in
      \<lparr>e_id = (if valid parsedId then JString (msgHashId parsedId) else msg_id msg),
       e_sender = resolveSender msg members,
       e_timestamp = msg_timestamp msg,
       e_body = extractMessageBody (msg_isMedia msg) (msg_body msg) (msg_content msg),
       e_replyTo = buildReplyTo msg members,
       e_reactions = formatReactionsForMessage msg\<rparr>)"

text \<open>
  \<open>isValidMessage\<close> is \<open>typeof msg.timestamp === 'number' && msg.timestamp > 0\<close>;
  \<open>validTimestamp\<close> is that test on the timestamp.
\<close>

definition validTimestamp :: "js_timestamp \<Rightarrow> bool" where
  "validTimestamp timestamp = (case timestamp of TsNumber t \<Rightarrow> t > 0 | TsUndefined \<Rightarrow> False)"

definition isValidMessage :: "enriched \<Rightarrow> bool" where
  "isValidMessage msg = validTimestamp (e_timestamp msg)"

text \<open>
  \<open>formatTimestamp\<close>: a \<open>Date\<close> holds an instant of at most 8 640 000 000 000 000 ms from the
  epoch on either side; beyond that the date is invalid, as it is for a timestamp that is
  not a number, and \<open>toISOString\<close> throws a \<open>RangeError\<close>.
\<close>

definition formatTimestamp :: "js_timestamp \<Rightarrow> js_error + iso_datetime" where
  "formatTimestamp timestamp =
     (case timestamp of
        TsNumber t \<Rightarrow>
          if \<bar>t * 1000\<bar> \<le> 8640000000000000 then Inr (ISODateTime (t * 1000))
          else Inl (Error (Some ''Invalid time value''))
      | TsUndefined \<Rightarrow> Inl (Error (Some ''Invalid time value'')))"

definition addFinalMetadata :: "enriched \<Rightarrow> nat \<Rightarrow> js_error + final_message" where
  "addFinalMetadata msg index =
     (case formatTimestamp (e_timestamp msg) of
        Inl error \<Rightarrow> Inl error
      | Inr datetime \<Rightarrow>
          Inr \<lparr>f_serialNumber = index + 1, f_datetime = datetime, f_messageId = e_id msg,
               f_sender = e_sender msg, f_body = e_body msg, f_replyTo = e_replyTo msg,
               f_reactions = e_reactions msg\<rparr>)"

text \<open>
  \<open>sortByTimestamp\<close> is \<open>a.timestamp - b.timestamp\<close>: a number, or \<open>NaN\<close> (\<open>None\<close>) when one of
  the two timestamps is missing. It is used on raw and on enriched messages; \<open>ts\<close> is the
  property read.
\<close>

definition sortByTimestamp :: "('a \<Rightarrow> js_timestamp) \<Rightarrow> 'a \<Rightarrow> 'a \<Rightarrow> int option" where
  "sortByTimestamp ts a b =
     (case (ts a, ts b) of
        (TsNumber x, TsNumber y) \<Rightarrow> Some (x - y)
      | _ \<Rightarrow> None)"

text \<open>
  \<open>Array.prototype.sort\<close> with a comparator is stable, and it reads a \<open>NaN\<close> from the
  comparator as 0. For a comparator that orders the elements consistently (here: when no
  timestamp is missing) every stable sort produces the same array, and the model is an
  insertion sort: an element goes before the first element that it does not exceed. When
  a timestamp is missing the comparator is not a consistent ordering; the language then
  leaves the order to the engine, and the model's array is only one of the permutations an
  engine may produce. The theorems below use the order of such a sort only through the
  fact that it is a permutation.
\<close>

fun insertInOrder :: "('a \<Rightarrow> 'a \<Rightarrow> int option) \<Rightarrow> 'a \<Rightarrow> 'a list \<Rightarrow> 'a list" where
  "insertInOrder cmp x [] = [x]"
| "insertInOrder cmp x (y # ys) =
     (if (case cmp x y of Some v \<Rightarrow> v > 0 | None \<Rightarrow> False)
      then y # insertInOrder cmp x ys else x # y # ys)"

definition arraySort :: "('a \<Rightarrow> 'a \<Rightarrow> int option) \<Rightarrow> 'a list \<Rightarrow> 'a list" where
  "arraySort cmp xs = foldr (insertInOrder cmp) xs []"

text \<open>
  \<open>array.map(f)\<close> for a callback that may throw: the callback is applied in index order and
  the first throw ends the call. \<open>mapIndexed\<close> is the case of a callback that does not
  throw.
\<close>

fun mapThrowing :: "('a \<Rightarrow> nat \<Rightarrow> js_error + 'b) \<Rightarrow> 'a list \<Rightarrow> nat \<Rightarrow> js_error + 'b list" where
  "mapThrowing f [] index = Inr []"
| "mapThrowing f (x # xs) index =
     (case f x index of
        Inl error \<Rightarrow> Inl error
      | Inr y \<Rightarrow>
          (case mapThrowing f xs (Suc index) of
             Inl error \<Rightarrow> Inl error
           | Inr ys \<Rightarrow> Inr (y # ys)))"

fun mapIndexed :: "('a \<Rightarrow> nat \<Rightarrow> 'b) \<Rightarrow> 'a list \<Rightarrow> nat \<Rightarrow> 'b list" where
  "mapIndexed f [] index = []"
| "mapIndexed f (x # xs) index = f x index # mapIndexed f xs (Suc index)"

text \<open>
  \<open>enrichMessages\<close>. The first statement sorts the caller's array in place, so a run yields,
  besides what the function returns or throws, the two argument arrays as they are after
  the call. No statement writes to \<open>members\<close> or to a message object.
\<close>

record enrich_run =
  en_result :: "js_error + final_message list"
  en_messages :: "raw_message list"
  en_members :: "member list"

definition enrichMessages :: "raw_message list \<Rightarrow> member list \<Rightarrow> enrich_run" where
  "enrichMessages messages members =
     (let sorted = arraySort (sortByTimestamp msg_timestamp) messages;
          enriched = mapIndexed (\<lambda>msg index. enrichSingleMessage msg index members) sorted 0
      in \<lparr>en_result =
             mapThrowing addFinalMetadata
               (arraySort (sortByTimestamp e_timestamp) (filter isValidMessage enriched)) 0,
           en_messages = sorted,
           en_members = members\<rparr>)"

text \<open>The number of a numeric timestamp (0 for a missing one), to state orderings.\<close>

definition seconds :: "js_timestamp \<Rightarrow> int" where
  "seconds timestamp = (case timestamp of TsNumber t \<Rightarrow> t | TsUndefined \<Rightarrow> 0)"

subsection \<open>The sort\<close>

lemma mset_insertInOrder: "mset (insertInOrder cmp x ys) = add_mset x (mset ys)"
  by (induction ys) auto

lemma mset_arraySort: "mset (arraySort cmp xs) = mset xs"
  unfolding arraySort_def by (induction xs) (auto simp: mset_insertInOrder)


lemma insertInOrder_insort:
  assumes "ts x \<noteq> TsUndefined" and "\<forall>y \<in> set ys. ts y \<noteq> TsUndefined"
  shows "insertInOrder (sortByTimestamp ts) x ys = insort_key (\<lambda>m. seconds (ts m)) x ys"
  using assms(2)
proof (induction ys)
  case Nil
  show ?case by simp
next
  case (Cons y ys)
  obtain a b where "ts x = TsNumber a" "ts y = TsNumber b"
    using assms(1) Cons.prems by (cases "ts x"; cases "ts y") auto
  with Cons show ?case
    by (auto simp: sortByTimestamp_def seconds_def)
qed

lemma arraySort_sort_key:
  "\<forall>x \<in> set xs. ts x \<noteq> TsUndefined \<Longrightarrow>
   arraySort (sortByTimestamp ts) xs = sort_key (\<lambda>m. seconds (ts m)) xs"
proof (induction xs)
  case Nil
  show ?case by (simp add: arraySort_def)
next
  case (Cons x xs)
  then have IH: "arraySort (sortByTimestamp ts) xs = sort_key (\<lambda>m. seconds (ts m)) xs"
    by simp
  have "arraySort (sortByTimestamp ts) (x # xs)
      = insertInOrder (sortByTimestamp ts) x (arraySort (sortByTimestamp ts) xs)"
    by (simp add: arraySort_def)
  also have "\<dots> = insort_key (\<lambda>m. seconds (ts m)) x (sort_key (\<lambda>m. seconds (ts m)) xs)"
    unfolding IH using Cons.prems by (intro insertInOrder_insort) auto
  finally show ?case by simp
qed



subsection \<open>The maps\<close>

lemma mapIndexed_map: "mapIndexed (\<lambda>x index. g x) xs k = map g xs"
  by (induction xs arbitrary: k) auto




lemma e_timestamp_enrich [simp]:
  "e_timestamp (enrichSingleMessage msg index members) = msg_timestamp msg"
  by (simp add: enrichSingleMessage_def Let_def)




subsection \<open>The pipeline\<close>


lemma en_messages_enrich:
  "en_messages (enrichMessages messages members)
     = arraySort (sortByTimestamp msg_timestamp) messages"
  by (simp add: enrichMessages_def Let_def)


subsection \<open>Claim C8\<close>




subsection \<open>Claim C9\<close>

text \<open>
  C9 as the specification words it fails: the first statement of \<open>enrichMessages\<close> is
  \<open>messages.sort(sortByTimestamp)\<close>, which sorts the caller's array in place. After a call
  with a message of timestamp 20 followed by one of timestamp 10, the caller's array
  holds them in the opposite order.
\<close>

theorem enrichMessages_reorders_counterexample:
  "en_messages (enrichMessages
      [textMessage ''A1'' (TsNumber 20) ''a'', textMessage ''B1'' (TsNumber 10) ''b''] [])
     = [textMessage ''B1'' (TsNumber 10) ''b'', textMessage ''A1'' (TsNumber 20) ''a'']
   \<and> en_messages (enrichMessages
      [textMessage ''A1'' (TsNumber 20) ''a'', textMessage ''B1'' (TsNumber 10) ''b''] [])
     \<noteq> [textMessage ''A1'' (TsNumber 20) ''a'', textMessage ''B1'' (TsNumber 10) ''b'']"
  by (simp add: en_messages_enrich arraySort_def sortByTimestamp_def textMessage_def)

text \<open>
  C9 (amended): \<open>enrichMessages\<close> leaves the participants array unchanged, and it leaves the
  \<open>rawMessages\<close> array with the same elements, each unchanged, but not in the same order:
  the array is sorted in place. When no timestamp is missing, the array is afterwards in
  ascending timestamp order with equal timestamps in their previous order; it is
  unchanged exactly when it was in ascending order before the call. (When a timestamp is
  missing, the array is afterwards a permutation of its previous contents, in an order
  left to the engine.)
\<close>

theorem enrichMessages_effects:
  "en_members (enrichMessages messages members) = members
   \<and> mset (en_messages (enrichMessages messages members)) = mset messages
   \<and> ((\<forall>m \<in> set messages. msg_timestamp m \<noteq> TsUndefined) \<longrightarrow>
        sorted (map (\<lambda>m. seconds (msg_timestamp m))
          (en_messages (enrichMessages messages members)))
        \<and> (\<forall>k. filter (\<lambda>m. seconds (msg_timestamp m) = k)
                  (en_messages (enrichMessages messages members))
               = filter (\<lambda>m. seconds (msg_timestamp m) = k) messages)
        \<and> (en_messages (enrichMessages messages members) = messages
             \<longleftrightarrow> sorted (map (\<lambda>m. seconds (msg_timestamp m)) messages)))"
proof -
  define key where "key = (\<lambda>m::raw_message. seconds (msg_timestamp m))"
  have members: "en_members (enrichMessages messages members) = members"
    by (simp add: enrichMessages_def Let_def)
  have same: "mset (en_messages (enrichMessages messages members)) = mset messages"
    by (simp add: en_messages_enrich mset_arraySort)
  have ordered: "sorted (map key (en_messages (enrichMessages messages members)))
      \<and> (\<forall>k. filter (\<lambda>m. key m = k) (en_messages (enrichMessages messages members))
             = filter (\<lambda>m. key m = k) messages)
      \<and> (en_messages (enrichMessages messages members) = messages
           \<longleftrightarrow> sorted (map key messages))"
    if numeric: "\<forall>m \<in> set messages. msg_timestamp m \<noteq> TsUndefined"
  proof -
    have sort: "en_messages (enrichMessages messages members) = sort_key key messages"
      unfolding en_messages_enrich key_def using numeric by (rule arraySort_sort_key)
    have "sort_key key messages = messages \<longleftrightarrow> sorted (map key messages)"
    proof
      assume "sort_key key messages = messages"
      with sorted_sort_key [of key messages] show "sorted (map key messages)"
        by simp
    next
      assume "sorted (map key messages)"
      then show "sort_key key messages = messages"
        by (rule sort_key_id_if_sorted)
    qed
    then show ?thesis
      by (simp add: sort sort_key_stable)
  qed
  from members same ordered show ?thesis
    unfolding key_def by blast
qed

text \<open>
  A call with two messages out of order and one roster member: the roster is as before,
  the messages array is sorted. A call with the two messages in order leaves the array as
  it was.
\<close>

theorem enrichMessages_effects_witness:
  "list_all (\<lambda>m. msg_timestamp m \<noteq> TsUndefined)
      [textMessage ''A1'' (TsNumber 20) ''a'', textMessage ''B1'' (TsNumber 10) ''b'']
   \<and> en_members (enrichMessages
        [textMessage ''A1'' (TsNumber 20) ''a'', textMessage ''B1'' (TsNumber 10) ''b'']
        [\<lparr>mb_id = ''972501234567@c.us'', mb_name = Some ''Dana'', mb_shortName = None,
          mb_pushname = None, mb_phone = Some ''972501234567''\<rparr>])
      = [\<lparr>mb_id = ''972501234567@c.us'', mb_name = Some ''Dana'', mb_shortName = None,
          mb_pushname = None, mb_phone = Some ''972501234567''\<rparr>]
   \<and> en_messages (enrichMessages
        [textMessage ''A1'' (TsNumber 20) ''a'', textMessage ''B1'' (TsNumber 10) ''b'']
        [\<lparr>mb_id = ''972501234567@c.us'', mb_name = Some ''Dana'', mb_shortName = None,
          mb_pushname = None, mb_phone = Some ''972501234567''\<rparr>])
      = [textMessage ''B1'' (TsNumber 10) ''b'', textMessage ''A1'' (TsNumber 20) ''a'']
   \<and> sorted (map (\<lambda>m. seconds (msg_timestamp m))
        [textMessage ''B1'' (TsNumber 10) ''b'', textMessage ''A1'' (TsNumber 20) ''a''])
   \<and> en_messages (enrichMessages
        [textMessage ''B1'' (TsNumber 10) ''b'', textMessage ''A1'' (TsNumber 20) ''a''] [])
      = [textMessage ''B1'' (TsNumber 10) ''b'', textMessage ''A1'' (TsNumber 20) ''a'']"
  using enrichMessages_effects
    [of "[textMessage ''A1'' (TsNumber 20) ''a'', textMessage ''B1'' (TsNumber 10) ''b'']"
        "[\<lparr>mb_id = ''972501234567@c.us'', mb_name = Some ''Dana'', mb_shortName = None,
           mb_pushname = None, mb_phone = Some ''972501234567''\<rparr>]"]
    enrichMessages_effects
    [of "[textMessage ''B1'' (TsNumber 10) ''b'', textMessage ''A1'' (TsNumber 20) ''a'']" "[]"]
  by (simp add: en_messages_enrich arraySort_def sortByTimestamp_def textMessage_def seconds_def)

subsection \<open>Examples of identifier classification and sender resolution\<close>

text \<open>
  The roster entry and the formatted name of the specification's Scenario B, and a message
  whose author is that member.
\<close>

lemma isPhoneNumber_examples:
  "isPhoneNumber ''+972 50-123-4567''" "isPhoneNumber ''972501234567@c.us''"
  "\<not> isPhoneNumber ''Dana''" "\<not> isPhoneNumber ''123@lid''"
  by code_simp+

lemma normalizePhoneNumber_examples:
  "normalizePhoneNumber ''+972 50-123-4567'' = ''972501234567''"
  "normalizePhoneNumber ''050-123-4567'' = ''050-123-4567''"
  by code_simp+

lemma resolveSender_example:
  "resolveSender
     ((textMessage ''A1'' (TsNumber 10) ''a'')\<lparr>msg_author := Some ''972501234567@c.us''\<rparr>)
     [\<lparr>mb_id = ''972501234567@c.us'', mb_name = Some ''Dana'', mb_shortName = None,
       mb_pushname = None, mb_phone = Some ''972501234567''\<rparr>]
   = Member \<lparr>mb_id = ''972501234567@c.us'', mb_name = Some ''Dana'', mb_shortName = None,
       mb_pushname = None, mb_phone = Some ''972501234567''\<rparr>"
  by code_simp

end
